theory Spec2Isabelle
  imports Complex_Main "HOL-Library.Multiset"
begin

section \<open>Data model of the music subscription (music/subscription.js)\<close>

text \<open>
  The bot keeps one \<open>MusicSubscription\<close> object per guild in the global map
  \<open>subscriptions\<close>. A subscription owns a voice connection, an audio player and a
  queue of tracks. JavaScript objects have identity and are mutated in place, so the
  model keeps them in a store: object references are numbers, the store maps a
  reference to the current fields of the object.
\<close>

type_synonym guild = string
type_synonym channel = string
type_synonym ref = nat

datatype error = TypeError | ReferenceError | StreamError string

text \<open>
  A track (music/track.js is not part of the sources at hand). The subscription reads
  its title, its \<open>errored\<close> flag and calls its three life-cycle callbacks
  and \<open>createAudioResource\<close>; the callbacks are recorded as events.
\<close>

record track =
  youtube_title :: string
  errored :: bool

record resource =
  metadata :: track

datatype AudioPlayerStatus = Idle | Buffering | Playing | Paused | AutoPaused

record player_state =
  ap_status :: AudioPlayerStatus
  ap_resource :: "resource option"

datatype VoiceConnectionStatus = Signalling | Connecting | Ready | Disconnected | Destroyed

datatype disconnect_reason = WebSocketClose | AdapterUnavailable | EndpointRemoved | Manual

text \<open>The state object handed to the connection's \<open>stateChange\<close> listener.\<close>

record connection_state =
  vc_status :: VoiceConnectionStatus
  reason :: "disconnect_reason option"
  closeCode :: "nat option"

record connection =
  vc_state :: connection_state
  rejoinAttempts :: nat

text \<open>
  An element of a JavaScript array may be \<open>undefined\<close> (a hole, or a value
  written by \<open>swap\<close> from beyond the end), so a queue slot is an optional track.
\<close>

type_synonym slot = "track option"

record MusicSubscription =
  voiceConnection :: connection
  audioPlayer :: player_state
  queue :: "slot list"
  destroyed :: bool
  lastTextChannel :: channel
  guildId :: guild
  queueLock :: bool
  readyLock :: bool
  wait :: bool

text \<open>Effects that leave the subscription: callbacks of tracks, messages to a text
  channel (the only one the subscription sends itself is the notice of line 662, which
  begins \<open>Left the channel because\<close>), calls on the voice connection, and
  rejections of asynchronous functions nobody awaits.\<close>

datatype notice = LeftForInactivity

datatype event =
    OnStart track
  | OnFinish track
  | OnError track error
  | Send channel notice
  | VcDestroy ref
  | VcRejoin ref
  | Unhandled error

text \<open>An asynchronous function suspended at an \<open>await\<close>: which subscription
  waits, and for what.\<close>

datatype task =
    CreatingResource ref track
  | EntersConnecting ref
  | Waiting ref nat
  | EntersReady ref
  | EntersPlaying ref

record world =
  subscriptions :: "guild \<rightharpoonup> ref"
  heap :: "ref \<rightharpoonup> MusicSubscription"
  allocated :: nat
  trace :: "event list"
  tasks :: "task list"

text \<open>
  The world: the registry \<open>subscriptions\<close>, the store of subscription objects with
  the next free reference, the events so far, and the asynchronous functions that are
  suspended. \<open>put\<close> writes an object, \<open>emit\<close> records an event, \<open>suspend\<close>
  and \<open>settle\<close> add and remove a suspended function.
\<close>

definition put :: "ref \<Rightarrow> MusicSubscription \<Rightarrow> world \<Rightarrow> world" where
  "put this s w = w\<lparr>heap := (heap w)(this \<mapsto> s)\<rparr>"

definition emit :: "event \<Rightarrow> world \<Rightarrow> world" where
  "emit e w = w\<lparr>trace := trace w @ [e]\<rparr>"

definition suspend :: "task \<Rightarrow> world \<Rightarrow> world" where
  "suspend t w = w\<lparr>tasks := tasks w @ [t]\<rparr>"

definition settle :: "task \<Rightarrow> world \<Rightarrow> world" where
  "settle t w = w\<lparr>tasks := remove1 t (tasks w)\<rparr>"

section \<open>The queue: JavaScript arrays, swap and shuffle\<close>

text \<open>Reading an array beyond its end gives \<open>undefined\<close>; writing beyond its
  end extends the array, the slots in between being holes.\<close>

definition js_get :: "slot list \<Rightarrow> nat \<Rightarrow> slot" where
  "js_get xs i = (if i < length xs then xs ! i else None)"

definition js_set :: "slot list \<Rightarrow> nat \<Rightarrow> slot \<Rightarrow> slot list" where
  "js_set xs i v =
     (if i < length xs then xs[i := v]
      else xs @ replicate (i - length xs) None @ [v])"

text \<open>\<open>swap(index1, index2)\<close>, lines 734-738: three assignments, no check of the
  indices.\<close>

definition swap :: "nat \<Rightarrow> nat \<Rightarrow> MusicSubscription \<Rightarrow> MusicSubscription" where
  "swap index1 index2 s =
     (let temporaryValue = js_get (queue s) index1;
          s1 = s\<lparr>queue := js_set (queue s) index1 (js_get (queue s) index2)\<rparr>;
          s2 = s1\<lparr>queue := js_set (queue s1) index2 temporaryValue\<rparr>
      in s2)"

text \<open>
  \<open>shuffle()\<close>, lines 740-749. \<open>Math.random()\<close> is an input of the model: the
  draw made while \<open>currentIndex = k\<close> is \<open>rnd k\<close>, a number that the language
  promises to lie in \<open>[0, 1)\<close>. The loop counts \<open>currentIndex\<close> down from the
  length of the queue to \<open>0\<close>.
\<close>

definition randomIndex :: "(nat \<Rightarrow> rat) \<Rightarrow> nat \<Rightarrow> nat" where
  "randomIndex rnd currentIndex = nat \<lfloor>rnd currentIndex * of_nat currentIndex\<rfloor>"

fun shuffle_loop :: "(nat \<Rightarrow> rat) \<Rightarrow> nat \<Rightarrow> MusicSubscription \<Rightarrow> MusicSubscription" where
  "shuffle_loop rnd 0 s = s"
| "shuffle_loop rnd (Suc n) s = shuffle_loop rnd n (swap n (randomIndex rnd (Suc n)) s)"

definition shuffle :: "(nat \<Rightarrow> rat) \<Rightarrow> MusicSubscription \<Rightarrow> MusicSubscription" where
  "shuffle rnd s = shuffle_loop rnd (length (queue s)) s"

definition clear :: "MusicSubscription \<Rightarrow> MusicSubscription" where
  "clear s = s\<lparr>queue := []\<rparr>"

text \<open>An assignment to fields of \<open>this\<close>.\<close>

definition modify :: "ref \<Rightarrow> (MusicSubscription \<Rightarrow> MusicSubscription) \<Rightarrow> world \<Rightarrow> world" where
  "modify this f w = (case heap w this of None \<Rightarrow> w | Some s \<Rightarrow> put this (f s) w)"

section \<open>The audio player and the queue processor\<close>

text \<open>
  \<open>processQueue()\<close>, lines 754-779, up to its \<open>await\<close>: the guard, the lock,
  \<open>shift\<close>, and the call of \<open>createAudioResource\<close>, whose result arrives
  later. When the slot taken from the queue is \<open>undefined\<close>, the call raises a
  \<open>TypeError\<close> inside \<open>try\<close>, \<open>nextTrack.onError\<close> raises another one
  inside \<open>catch\<close>, and the function ends rejected with the lock still held.
\<close>

definition processQueue :: "ref \<Rightarrow> world \<Rightarrow> world" where
  "processQueue this w =
     (case heap w this of
        None \<Rightarrow> w
      | Some s0 \<Rightarrow>
          let s = s0\<lparr>wait := False\<rparr> in
          if queueLock s \<or> ap_status (audioPlayer s) \<noteq> Idle \<or> length (queue s) = 0
          then put this s w
          else
            let s1 = s\<lparr>queueLock := True\<rparr>;
                nextTrack = hd (queue s1);
                s2 = s1\<lparr>queue := tl (queue s1)\<rparr>
            in (case nextTrack of
                  None \<Rightarrow> emit (Unhandled TypeError) (put this s2 w)
                | Some t \<Rightarrow> suspend (CreatingResource this t) (put this s2 w)))"

text \<open>
  The listener of the player's \<open>stateChange\<close>, lines 631-674, up to its
  \<open>await\<close>. The listener is an asynchronous function: an exception in it (reading
  \<open>metadata\<close> of a missing resource) rejects a promise that nobody handles.
\<close>

definition ap_stateChange :: "ref \<Rightarrow> player_state \<Rightarrow> player_state \<Rightarrow> world \<Rightarrow> world" where
  "ap_stateChange this oldState newState w =
     (if ap_status newState = Idle \<and> ap_status oldState \<noteq> Idle then
        (case ap_resource oldState of
           None \<Rightarrow> emit (Unhandled TypeError) w
         | Some r \<Rightarrow>
             let currentTrack = metadata r;
                 w1 = (if \<not> errored currentTrack then emit (OnFinish (metadata r)) w else w);
                 w2 = (case heap w1 this of
                         None \<Rightarrow> w1
                       | Some s \<Rightarrow> if \<not> wait s then processQueue this w1 else w1)
             in suspend (EntersPlaying this) w2)
      else if ap_status newState = Playing then
        (case ap_resource newState of
           None \<Rightarrow> emit (Unhandled TypeError) w
         | Some r \<Rightarrow> emit (OnStart (metadata r)) w)
      else w)"

text \<open>
  Modelled from the spec: the playback engine of the voice library, which is not part
  of the repository. The player takes a new state and tells its listener at once;
  \<open>play(resource)\<close> "begins streaming a prepared resource, attaching it as now
  playing" (it starts in \<open>Buffering\<close> and enters \<open>Playing\<close> later), and
  \<open>stop(force)\<close> "forces a transition to Idle, discarding the current resource" (a
  player that is idle already stays as it is).
\<close>

definition ap_enters :: "ref \<Rightarrow> player_state \<Rightarrow> world \<Rightarrow> world" where
  "ap_enters this newState w =
     (case heap w this of
        None \<Rightarrow> w
      | Some s \<Rightarrow> ap_stateChange this (audioPlayer s) newState (put this (s\<lparr>audioPlayer := newState\<rparr>) w))"

definition ap_play :: "ref \<Rightarrow> resource \<Rightarrow> world \<Rightarrow> world" where
  "ap_play this r w = ap_enters this \<lparr>ap_status = Buffering, ap_resource = Some r\<rparr> w"

definition ap_stop :: "ref \<Rightarrow> bool \<Rightarrow> world \<Rightarrow> world" where
  "ap_stop this force w =
     (case heap w this of
        None \<Rightarrow> w
      | Some s \<Rightarrow>
          if ap_status (audioPlayer s) = Idle then w
          else ap_enters this \<lparr>ap_status = Idle, ap_resource = None\<rparr> w)"

text \<open>
  \<open>processQueue()\<close> after its \<open>await\<close>, lines 771-778: the resource is handed to
  the player and the lock released, or the track's \<open>onError\<close> is called, the lock
  released and \<open>processQueue()\<close> called again.
\<close>

definition processQueue_resume :: "ref \<Rightarrow> track \<Rightarrow> error + resource \<Rightarrow> world \<Rightarrow> world" where
  "processQueue_resume this nextTrack result w0 =
     (if CreatingResource this nextTrack \<notin> set (tasks w0) then w0
      else
        let w = settle (CreatingResource this nextTrack) w0 in
        (case result of
           Inr r \<Rightarrow>
             let w1 = ap_play this r w
             in modify this (\<lambda>s. s\<lparr>queueLock := False\<rparr>) w1
         | Inl e \<Rightarrow>
             let w1 = emit (OnError nextTrack e) w;
                 w2 = modify this (\<lambda>s. s\<lparr>queueLock := False\<rparr>) w1
             in processQueue this w2))"

text \<open>\<open>enqueue\<close>, \<open>bulkEnqueue\<close> and \<open>enqueueNext\<close>, lines 685-705.\<close>

definition enqueue :: "ref \<Rightarrow> track \<Rightarrow> world \<Rightarrow> world" where
  "enqueue this t w = processQueue this (modify this (\<lambda>s. s\<lparr>queue := queue s @ [Some t]\<rparr>) w)"

definition bulkEnqueue :: "(nat \<Rightarrow> rat) \<Rightarrow> ref \<Rightarrow> track list \<Rightarrow> bool \<Rightarrow> world \<Rightarrow> world" where
  "bulkEnqueue rnd this ts autoShuffle w =
     (let w1 = modify this (\<lambda>s. s\<lparr>queue := queue s @ map Some ts\<rparr>) w;
          w2 = (if autoShuffle then modify this (shuffle rnd) w1 else w1)
      in processQueue this w2)"

definition enqueueNext :: "ref \<Rightarrow> track \<Rightarrow> world \<Rightarrow> world" where
  "enqueueNext this t w =
     (let w1 = modify this (\<lambda>s. s\<lparr>queue := queue s @ [Some t]\<rparr>) w;
          w2 = modify this (\<lambda>s. swap 0 (length (queue s) - 1) s) w1
      in processQueue this w2)"

definition nowPlaying :: "MusicSubscription \<Rightarrow> error + track" where
  "nowPlaying s =
     (case ap_resource (audioPlayer s) of None \<Rightarrow> Inl TypeError | Some r \<Rightarrow> Inr (metadata r))"

section \<open>The voice connection and the end of a subscription\<close>

text \<open>The connection of a subscription, when the subscription exists, and whether
  \<open>this.voiceConnection.state.status !== VoiceConnectionStatus.Destroyed\<close>.\<close>

definition connection_of :: "ref \<Rightarrow> world \<Rightarrow> connection option" where
  "connection_of r w = map_option voiceConnection (heap w r)"

definition vc_live :: "ref \<Rightarrow> world \<Rightarrow> bool" where
  "vc_live this w =
     (case connection_of this w of
        None \<Rightarrow> False
      | Some c \<Rightarrow> vc_status (vc_state c) \<noteq> Destroyed)"

lemma heap_emit [simp]: "heap (emit e w) = heap w"
  by (simp add: emit_def)

lemma heap_suspend [simp]: "heap (suspend t w) = heap w"
  by (simp add: suspend_def)

lemma heap_settle [simp]: "heap (settle t w) = heap w"
  by (simp add: settle_def)

lemma heap_put [simp]: "heap (put r s w) = (heap w)(r \<mapsto> s)"
  by (simp add: put_def)

lemma connection_of_emit [simp]: "connection_of r (emit e w) = connection_of r w"
  by (simp add: connection_of_def)

lemma connection_of_suspend [simp]: "connection_of r (suspend t w) = connection_of r w"
  by (simp add: connection_of_def)

lemma connection_of_settle [simp]: "connection_of r (settle t w) = connection_of r w"
  by (simp add: connection_of_def)

lemma connection_of_put:
  "heap w this = Some s \<Longrightarrow> voiceConnection s' = voiceConnection s \<Longrightarrow>
   connection_of r (put this s' w) = connection_of r w"
  by (simp add: connection_of_def)

lemma connection_of_modify:
  "(\<And>s. voiceConnection (f s) = voiceConnection s) \<Longrightarrow>
   connection_of r (modify this f w) = connection_of r w"
  by (simp add: modify_def connection_of_put split: option.splits)

lemma connection_of_processQueue [simp]:
  "connection_of r (processQueue this w) = connection_of r w"
  by (simp add: processQueue_def Let_def connection_of_put split: option.splits)

lemma connection_of_ap_stateChange [simp]:
  "connection_of r (ap_stateChange this old new w) = connection_of r w"
  by (simp add: ap_stateChange_def Let_def split: option.splits)

lemma connection_of_ap_enters [simp]:
  "connection_of r (ap_enters this new w) = connection_of r w"
  by (simp add: ap_enters_def connection_of_put split: option.splits)

lemma connection_of_ap_stop [simp]:
  "connection_of r (ap_stop this force w) = connection_of r w"
  by (simp add: ap_stop_def split: option.splits)

text \<open>
  Three functions that call each other:
  \<^item> \<open>stop()\<close>, lines 713-721;
  \<^item> the connection's \<open>destroy()\<close>. Modelled from the spec: the voice transport
    of the voice library, not part of the repository; "destroy() is idempotent and
    moves the machine to Destroyed unconditionally", and "on entering Destroyed" the
    listener runs at once. Every call is recorded as \<open>VcDestroy\<close>;
  \<^item> the listener of the connection's \<open>stateChange\<close>, lines 570-628, up to its
    \<open>await\<close>.
  The recursion ends because \<open>stop()\<close> calls \<open>destroy()\<close> on a live connection
  only, and \<open>destroy()\<close> tells the listener only when it has ended a live connection.
\<close>

function stop :: "ref \<Rightarrow> world \<Rightarrow> world"
  and vc_destroy :: "ref \<Rightarrow> world \<Rightarrow> world"
  and vc_stateChange :: "ref \<Rightarrow> connection_state \<Rightarrow> world \<Rightarrow> world"
where
  "stop this w =
     (let w1 = modify this (\<lambda>s. s\<lparr>queueLock := True\<rparr>) w;
          w2 = modify this (\<lambda>s. s\<lparr>queue := []\<rparr>) w1;
          w3 = ap_stop this True w2;
          w4 = modify this (\<lambda>s. s\<lparr>destroyed := True\<rparr>) w3;
          w5 = (if vc_live this w4 then vc_destroy this w4 else w4)
      in (case heap w5 this of
            None \<Rightarrow> w5
          | Some s \<Rightarrow> w5\<lparr>subscriptions := (subscriptions w5)(guildId s := None)\<rparr>))"
| "vc_destroy this w =
     (if vc_live this w then
        let newState = \<lparr>vc_status = Destroyed, reason = None, closeCode = None\<rparr>;
            w1 = modify this
                   (\<lambda>s. s\<lparr>voiceConnection := (voiceConnection s)\<lparr>vc_state := newState\<rparr>\<rparr>) w
        in vc_stateChange this newState (emit (VcDestroy this) w1)
      else emit (VcDestroy this) w)"
| "vc_stateChange this newState w =
     (case heap w this of
        None \<Rightarrow> w
      | Some s \<Rightarrow>
          if vc_status newState = Disconnected then
            (if reason newState = Some WebSocketClose \<and> closeCode newState = Some 4014
             then suspend (EntersConnecting this) w
             else if rejoinAttempts (voiceConnection s) < 5
             then suspend (Waiting this ((rejoinAttempts (voiceConnection s) + 1) * 5000)) w
             else vc_destroy this w)
          else if vc_status newState = Destroyed then stop this w
          else if \<not> readyLock s \<and>
                  (vc_status newState = Connecting \<or> vc_status newState = Signalling)
          then suspend (EntersReady this) (put this (s\<lparr>readyLock := True\<rparr>) w)
          else w)"
  by pat_completeness auto
termination
proof (relation "measure (\<lambda>x. case x of
          Inl (this, w) \<Rightarrow> (if vc_live this w then 5 else 1)
        | Inr (Inl (this, w)) \<Rightarrow> (if vc_live this w then 4 else 0)
        | Inr (Inr (this, newState, w)) \<Rightarrow> (if vc_live this w then 6 else 2))",
    goal_cases)
  case 1
  show ?case by simp
next
  case (2 this w w1 w2 w3 w4)
  have "connection_of this w4 = connection_of this w"
    by (simp add: 2 connection_of_modify)
  then have "vc_live this w4 = vc_live this w"
    by (simp add: vc_live_def)
  then show ?case using 2 by simp
next
  case (3 this w newState w1)
  have "\<not> vc_live this (emit (VcDestroy this) w1)"
    using 3 by (simp add: vc_live_def connection_of_def modify_def split: option.splits)
  then show ?case using 3 by simp
next
  case (4 this newState w s)
  then show ?case by simp
next
  case (5 this newState w s)
  then show ?case by simp
qed

text \<open>
  Modelled from the spec: the rest of the voice transport. A rejoin request counts as an
  attempt ("each rejoin attempt increments the counter"); the connection takes a new
  state and tells its listener at once; "reaching Ready resets" the counter "to 0";
  "Destroyed is terminal - no transition leaves it".
\<close>

definition vc_rejoin :: "ref \<Rightarrow> world \<Rightarrow> world" where
  "vc_rejoin this w =
     modify this
       (\<lambda>s. s\<lparr>voiceConnection :=
                 (voiceConnection s)\<lparr>rejoinAttempts := rejoinAttempts (voiceConnection s) + 1\<rparr>\<rparr>)
       (emit (VcRejoin this) w)"

definition vc_enters :: "ref \<Rightarrow> connection_state \<Rightarrow> world \<Rightarrow> world" where
  "vc_enters this newState w =
     (if vc_live this w then
        let w1 = modify this
                   (\<lambda>s. s\<lparr>voiceConnection :=
                            \<lparr>vc_state = newState,
                             rejoinAttempts =
                               (if vc_status newState = Ready then 0
                                else rejoinAttempts (voiceConnection s))\<rparr>\<rparr>) w
        in vc_stateChange this newState w1
      else w)"

text \<open>
  The connection's listener after each of its three \<open>await\<close>s. The argument
  \<open>entered\<close> tells whether \<open>entersState\<close> was fulfilled (the state was reached
  in time) or rejected (the time ran out).
  \<^item> Lines 580-588: five seconds to come back to \<open>Connecting\<close>, else destroy.
  \<^item> Lines 592-593: after the delay, rejoin.
  \<^item> Lines 617-626: fifteen seconds to become \<open>Ready\<close>. In the \<open>catch\<close> block the
    condition names \<open>VoiceConnectdionStatus\<close>, an identifier that is declared
    nowhere: evaluating it raises a \<open>ReferenceError\<close>, so the call of
    \<open>destroy()\<close> behind it is never reached. \<open>finally\<close> releases the lock, and
    the listener ends rejected.
\<close>

definition vc_entersConnecting_resume :: "ref \<Rightarrow> bool \<Rightarrow> world \<Rightarrow> world" where
  "vc_entersConnecting_resume this entered w0 =
     (if EntersConnecting this \<notin> set (tasks w0) then w0
      else
        let w = settle (EntersConnecting this) w0
        in if entered then w else vc_destroy this w)"

definition vc_wait_resume :: "ref \<Rightarrow> nat \<Rightarrow> world \<Rightarrow> world" where
  "vc_wait_resume this ms w0 =
     (if Waiting this ms \<notin> set (tasks w0) then w0
      else vc_rejoin this (settle (Waiting this ms) w0))"

definition vc_entersReady_resume :: "ref \<Rightarrow> bool \<Rightarrow> world \<Rightarrow> world" where
  "vc_entersReady_resume this entered w0 =
     (if EntersReady this \<notin> set (tasks w0) then w0
      else
        let w = settle (EntersReady this) w0
        in if entered then modify this (\<lambda>s. s\<lparr>readyLock := False\<rparr>) w
           else emit (Unhandled ReferenceError) (modify this (\<lambda>s. s\<lparr>readyLock := False\<rparr>) w))"

text \<open>
  The player's listener after its \<open>await\<close>, lines 654-668: thirty seconds to enter
  \<open>Playing\<close>, else the notice to the last text channel and the end of the connection.
\<close>

definition ap_entersPlaying_resume :: "ref \<Rightarrow> bool \<Rightarrow> world \<Rightarrow> world" where
  "ap_entersPlaying_resume this entered w0 =
     (if EntersPlaying this \<notin> set (tasks w0) then w0
      else
        let w = settle (EntersPlaying this) w0
        in if entered then w
           else
             (case heap w this of
                None \<Rightarrow> w
              | Some s \<Rightarrow>
                  let w1 = emit (Send (lastTextChannel s) LeftForInactivity) w
                  in if vc_live this w1 then vc_destroy this w1 else w1))"

section \<open>The registry\<close>

text \<open>
  \<open>getOrCreateSubscription\<close>, lines 531-554, with the constructor, lines 562-568.
  Modelled from the spec: \<open>joinVoiceChannel\<close> of the voice library "establishes" a
  connection; a new connection starts in \<open>Signalling\<close> with no rejoin attempt. The
  fields \<open>queueLock\<close>, \<open>readyLock\<close> and \<open>wait\<close> are not set by the
  constructor: read before their first assignment they are \<open>undefined\<close>, which
  counts as false.
\<close>

record voice_channel =
  channel_id :: string
  guild_id :: guild

definition joinVoiceChannel :: "voice_channel \<Rightarrow> connection" where
  "joinVoiceChannel voiceChannel =
     \<lparr>vc_state = \<lparr>vc_status = Signalling, reason = None, closeCode = None\<rparr>,
      rejoinAttempts = 0\<rparr>"

definition new_MusicSubscription :: "connection \<Rightarrow> channel \<Rightarrow> guild \<Rightarrow> MusicSubscription" where
  "new_MusicSubscription conn textChannel g =
     \<lparr>voiceConnection = conn,
      audioPlayer = \<lparr>ap_status = Idle, ap_resource = None\<rparr>,
      queue = [],
      destroyed = False,
      lastTextChannel = textChannel,
      guildId = g,
      queueLock = False,
      readyLock = False,
      wait = False\<rparr>"

text \<open>\<open>subscriptions.get(id)\<close>: the reference stored under the key, with the object
  it refers to.\<close>

definition subscriptions_get :: "world \<Rightarrow> guild \<Rightarrow> (ref \<times> MusicSubscription) option" where
  "subscriptions_get w g =
     (case subscriptions w g of
        None \<Rightarrow> None
      | Some r \<Rightarrow> map_option (Pair r) (heap w r))"

definition getOrCreateSubscription :: "voice_channel \<Rightarrow> channel \<Rightarrow> world \<Rightarrow> ref \<times> world" where
  "getOrCreateSubscription voiceChannel textChannel w =
     (let g = guild_id voiceChannel in
      case subscriptions_get w g of
        Some (r, s) \<Rightarrow> (r, put r (s\<lparr>lastTextChannel := textChannel\<rparr>) w)
      | None \<Rightarrow>
          let r = allocated w;
              s = new_MusicSubscription (joinVoiceChannel voiceChannel) textChannel g;
              w1 = (put r s w)\<lparr>allocated := Suc r\<rparr>
          in (r, w1\<lparr>subscriptions := (subscriptions w1)(g \<mapsto> r)\<rparr>))"

section \<open>The command layer (commands/commands.js, client.js)\<close>

text \<open>
  What a command reads from an interaction. An option that the user left out is
  \<open>null\<close>. \<open>Number(text.trim())\<close> is an input of the model; its result is
  \<open>NaN\<close>, a finite number (every finite floating-point number is a rational) or
  one of the two infinities.
\<close>

record interaction =
  isCommand :: bool
  commandName :: string
  i_guildId :: guild
  i_channel :: channel
  getString :: "string \<Rightarrow> string option"

datatype jsnum = NaN | Num rat | PosInfinity | NegInfinity

datatype reply = Say string

datatype outcome = Replied reply | Thrown error

text \<open>The comparisons \<open>index > subscription.queue.length\<close> and \<open>index < 0\<close>.\<close>

fun js_gt :: "jsnum \<Rightarrow> nat \<Rightarrow> bool" where
  "js_gt NaN n = False"
| "js_gt (Num q) n = (of_nat n < q)"
| "js_gt PosInfinity n = True"
| "js_gt NegInfinity n = False"

fun js_negative :: "jsnum \<Rightarrow> bool" where
  "js_negative NaN = False"
| "js_negative (Num q) = (q < 0)"
| "js_negative PosInfinity = False"
| "js_negative NegInfinity = True"

text \<open>
  \<open>commands.swap.execute\<close>, lines 358-389: every statement before the queue is
  touched. The result is the early return (a reply, or the exception that ends the
  function), or the two numbers with which line 393 calls \<open>subscription.swap\<close>.
  Lines 369 and 370 call \<open>trim\<close> on each option. Lines 381 and 382 assign to the
  constant \<open>index1\<close> (or \<open>index2\<close>) the value of \<open>queue.length - 1\<close>, where
  \<open>queue\<close> is declared nowhere: for an index greater than the length of the queue the
  right-hand side is evaluated and raises a \<open>ReferenceError\<close>.
\<close>

definition swap_validate :: "(string \<Rightarrow> jsnum) \<Rightarrow> interaction \<Rightarrow> world \<Rightarrow> outcome + jsnum \<times> jsnum" where
  "swap_validate number i w =
     (case subscriptions_get w (i_guildId i) of
        None \<Rightarrow> Inl (Replied (Say ''Not currently playing on this server''))
      | Some (this, s) \<Rightarrow>
          if length (queue s) < 2
          then Inl (Replied (Say ''If you swap a melon with a melon what do you get? A melon''))
          else
            (case getString i ''index1'' of
               None \<Rightarrow> Inl (Thrown TypeError)
             | Some raw1 \<Rightarrow>
            (case getString i ''index2'' of
               None \<Rightarrow> Inl (Thrown TypeError)
             | Some raw2 \<Rightarrow>
                 let index1 = number raw1 in
                 if index1 = NaN
                 then Inl (Replied (Say ''Index must be a number! To see indices, type /queue''))
                 else
                   let index2 = number raw2 in
                   if index2 = NaN
                   then Inl (Replied (Say ''Index must be a number! To see indices, type /queue''))
                   else if js_gt index1 (length (queue s)) then Inl (Thrown ReferenceError)
                   else if js_gt index2 (length (queue s)) then Inl (Thrown ReferenceError)
                   else if index1 = index2
                   then Inl (Replied (Say ''Indices cannot be the same''))
                   else if js_negative index1 \<or> js_negative index2
                   then Inl (Replied (Say ''Index can't be less than 0''))
                   else Inr (index1, index2))))"

text \<open>
  The body of the two entries written under the key \<open>skip\<close>, lines 405-424 and
  433-452 (the two bodies are the same statements).
\<close>

definition skip_execute :: "interaction \<Rightarrow> world \<Rightarrow> world \<times> outcome" where
  "skip_execute i w =
     (case subscriptions_get w (i_guildId i) of
        None \<Rightarrow> (w, Replied (Say ''Not currently playing on this server''))
      | Some (this, s0) \<Rightarrow>
          let s = s0\<lparr>lastTextChannel := i_channel i\<rparr>;
              w1 = put this s w
          in if ap_status (audioPlayer s) = Idle \<or> ap_status (audioPlayer s) = Buffering
             then (w1, Replied (Say ''Cannot skip since a track is not playing yet''))
             else
               (case nowPlaying s of
                  Inl e \<Rightarrow> (w1, Thrown e)
                | Inr skipping \<Rightarrow>
                    (ap_stop this False w1,
                     Replied (Say (''Skipped `'' @ youtube_title skipping @ ''`'')))))"

text \<open>
  The object literal \<open>commands\<close>, lines 31-489, as the list of its entries in the
  order they are written. Of an entry the model keeps the name given to the command
  builder, which \<open>execute\<close> body it holds, and which members of the subscription
  module that body calls. When a key is written twice in an object literal, the later
  entry replaces the value of the earlier one.
\<close>

datatype body =
    Play_42 | Next_211 | Now_227 | Pause_239 | Shuffle_262 | Clear_283 | Queue_307
  | Swap_358 | Skip_405 | Skip_433 | Move_461

datatype callee =
    Call_getOrCreateSubscription | Call_subscriptions_get
  | Call_enqueue | Call_enqueueNext | Call_bulkEnqueue
  | Call_shuffle | Call_clear | Call_swap | Call_nowPlaying | Call_stop
  | Call_audioPlayer_pause | Call_audioPlayer_stop
  | Call_entersState | Call_joinVoiceChannel

record command =
  builder_name :: string
  execute :: body

definition commands_literal :: "(string \<times> command) list" where
  "commands_literal =
     [(''play'', \<lparr>builder_name = ''play'', execute = Play_42\<rparr>),
      (''next'', \<lparr>builder_name = ''next'', execute = Next_211\<rparr>),
      (''now'', \<lparr>builder_name = ''now'', execute = Now_227\<rparr>),
      (''pause'', \<lparr>builder_name = ''pause'', execute = Pause_239\<rparr>),
      (''shuffle'', \<lparr>builder_name = ''shuffle'', execute = Shuffle_262\<rparr>),
      (''clear'', \<lparr>builder_name = ''clear'', execute = Clear_283\<rparr>),
      (''queue'', \<lparr>builder_name = ''queue'', execute = Queue_307\<rparr>),
      (''swap'', \<lparr>builder_name = ''swap'', execute = Swap_358\<rparr>),
      (''skip'', \<lparr>builder_name = ''skip'', execute = Skip_405\<rparr>),
      (''skip'', \<lparr>builder_name = ''stop'', execute = Skip_433\<rparr>),
      (''move'', \<lparr>builder_name = ''move'', execute = Move_461\<rparr>)]"

definition object_of :: "(string \<times> 'a) list \<Rightarrow> string \<rightharpoonup> 'a" where
  "object_of entries = foldl (\<lambda>m (k, v). m(k \<mapsto> v)) Map.empty entries"

definition commands :: "string \<rightharpoonup> command" where
  "commands = object_of commands_literal"

text \<open>The calls each body makes, in the order of the source; \<open>next\<close> and \<open>now\<close>
  call the body of \<open>play\<close>, which reaches \<open>enqueueYoutubeTrack\<close> (lines
  493-508).\<close>

definition calls_of_play :: "callee list" where
  "calls_of_play =
     [Call_getOrCreateSubscription, Call_subscriptions_get, Call_entersState,
      Call_enqueueNext, Call_audioPlayer_stop, Call_enqueue, Call_bulkEnqueue,
      Call_subscriptions_get, Call_audioPlayer_pause]"

fun calls :: "body \<Rightarrow> callee list" where
  "calls Play_42 = calls_of_play"
| "calls Next_211 = calls_of_play"
| "calls Now_227 = calls_of_play"
| "calls Pause_239 = [Call_subscriptions_get, Call_audioPlayer_pause]"
| "calls Shuffle_262 = [Call_subscriptions_get, Call_shuffle]"
| "calls Clear_283 = [Call_subscriptions_get, Call_clear]"
| "calls Queue_307 = [Call_subscriptions_get]"
| "calls Swap_358 = [Call_subscriptions_get, Call_swap]"
| "calls Skip_405 = [Call_subscriptions_get, Call_nowPlaying, Call_audioPlayer_stop]"
| "calls Skip_433 = [Call_subscriptions_get, Call_nowPlaying, Call_audioPlayer_stop]"
| "calls Move_461 = [Call_subscriptions_get, Call_joinVoiceChannel]"

text \<open>The listener of \<open>interactionCreate\<close>, client.js lines 17-21: the body it
  runs, if any. (Names that every object inherits, such as \<open>constructor\<close>, are
  not commands of the bot and are left out.)\<close>

definition interactionCreate :: "interaction \<Rightarrow> body option" where
  "interactionCreate i =
     (if isCommand i
      then (case commands (commandName i) of None \<Rightarrow> None | Some c \<Rightarrow> Some (execute c))
      else None)"

section \<open>Example data\<close>

text \<open>Three tracks and a subscription of guild \<open>g\<close> holding them in its queue.\<close>

definition trackA :: track where "trackA = \<lparr>youtube_title = ''A'', errored = False\<rparr>"
definition trackB :: track where "trackB = \<lparr>youtube_title = ''B'', errored = False\<rparr>"
definition trackC :: track where "trackC = \<lparr>youtube_title = ''C'', errored = False\<rparr>"

definition sub0 :: MusicSubscription where
  "sub0 = (new_MusicSubscription (joinVoiceChannel \<lparr>channel_id = ''v'', guild_id = ''g''\<rparr>) ''t'' ''g'')
            \<lparr>queue := [Some trackA, Some trackB, Some trackC]\<rparr>"

text \<open>A world in which guild \<open>g\<close> has this subscription, at reference \<open>0\<close>,
  and nothing is pending.\<close>

definition world0 :: world where
  "world0 = \<lparr>subscriptions = [''g'' \<mapsto> 0], heap = [0 \<mapsto> sub0], allocated = 1,
             trace = [], tasks = []\<rparr>"

text \<open>The same world while track \<open>A\<close> is playing and \<open>B\<close>, \<open>C\<close> wait in
  the queue; while \<open>A\<close> is playing and the queue is empty; and with an empty queue
  and an idle player.\<close>

definition sub_playing :: MusicSubscription where
  "sub_playing =
     sub0\<lparr>audioPlayer := \<lparr>ap_status = Playing, ap_resource = Some \<lparr>metadata = trackA\<rparr>\<rparr>,
          queue := [Some trackB, Some trackC]\<rparr>"

definition world_playing :: world where
  "world_playing = world0\<lparr>heap := [0 \<mapsto> sub_playing]\<rparr>"

definition sub_last :: MusicSubscription where
  "sub_last =
     sub0\<lparr>audioPlayer := \<lparr>ap_status = Playing, ap_resource = Some \<lparr>metadata = trackA\<rparr>\<rparr>,
          queue := []\<rparr>"

definition world_last :: world where
  "world_last = world0\<lparr>heap := [0 \<mapsto> sub_last]\<rparr>"

definition sub_idle :: MusicSubscription where
  "sub_idle = sub0\<lparr>queue := []\<rparr>"

definition world_idle :: world where
  "world_idle = world0\<lparr>heap := [0 \<mapsto> sub_idle]\<rparr>"

text \<open>States that a connection may enter, two voice channels of guild \<open>g\<close>, a
  world without any subscription, and a \<open>/swap\<close> interaction in guild \<open>g\<close> with
  the two options as typed, together with the numbers that \<open>Number\<close> reads from
  the texts used below.\<close>

definition connecting_state :: connection_state where
  "connecting_state = \<lparr>vc_status = Connecting, reason = None, closeCode = None\<rparr>"

definition signalling_state :: connection_state where
  "signalling_state = \<lparr>vc_status = Signalling, reason = None, closeCode = None\<rparr>"

definition disconnected_state :: connection_state where
  "disconnected_state = \<lparr>vc_status = Disconnected, reason = Some WebSocketClose, closeCode = Some 4006\<rparr>"

definition voice_channel0 :: voice_channel where
  "voice_channel0 = \<lparr>channel_id = ''v'', guild_id = ''g''\<rparr>"

definition voice_channel1 :: voice_channel where
  "voice_channel1 = \<lparr>channel_id = ''v2'', guild_id = ''g''\<rparr>"

definition empty_world :: world where
  "empty_world = \<lparr>subscriptions = Map.empty, heap = Map.empty, allocated = 0, trace = [], tasks = []\<rparr>"

definition swap_interaction :: "string \<Rightarrow> string \<Rightarrow> interaction" where
  "swap_interaction index1 index2 =
     \<lparr>isCommand = True, commandName = ''swap'', i_guildId = ''g'', i_channel = ''t'',
      getString = [''index1'' \<mapsto> index1, ''index2'' \<mapsto> index2]\<rparr>"

definition number0 :: "string \<Rightarrow> jsnum" where
  "number0 text =
     (if text = ''0'' then Num 0 else if text = ''3'' then Num 3
      else if text = ''4'' then Num 4 else if text = ''1.5'' then Num (3 / 2) else NaN)"

section \<open>Shuffle is a permutation, drawn as Fisher and Yates do\<close>

lemma js_get_in_range: "i < length xs \<Longrightarrow> js_get xs i = xs ! i"
  by (simp add: js_get_def)

lemma js_set_in_range: "i < length xs \<Longrightarrow> js_set xs i v = xs[i := v]"
  by (simp add: js_set_def)

lemma swap_in_range:
  assumes "i < length (queue s)" "j < length (queue s)"
  shows "swap i j s = s\<lparr>queue := (queue s)[i := queue s ! j, j := queue s ! i]\<rparr>"
  using assms by (simp add: swap_def Let_def js_get_in_range js_set_in_range)

lemma randomIndex_less:
  assumes "0 \<le> rnd (Suc n)" "rnd (Suc n) < 1"
  shows "randomIndex rnd (Suc n) \<le> n"
proof -
  have "rnd (Suc n) * of_nat (Suc n) < of_nat (Suc n)"
    using assms by (simp add: mult_less_cancel_right2 del: of_nat_Suc)
  then have "\<lfloor>rnd (Suc n) * of_nat (Suc n)\<rfloor> < int (Suc n)"
    by (simp add: floor_less_iff del: of_nat_Suc)
  then show ?thesis
    by (simp add: randomIndex_def del: of_nat_Suc)
qed

lemma shuffle_loop_mset:
  assumes "\<forall>k. 0 \<le> rnd k \<and> rnd k < 1"
  shows "n \<le> length (queue s) \<Longrightarrow>
    shuffle_loop rnd n s = s\<lparr>queue := queue (shuffle_loop rnd n s)\<rparr> \<and>
    mset (queue (shuffle_loop rnd n s)) = mset (queue s) \<and>
    drop n (queue (shuffle_loop rnd n s)) = drop n (queue s)"
proof (induction n arbitrary: s)
  case 0
  then show ?case by simp
next
  case (Suc n)
  let ?j = "randomIndex rnd (Suc n)"
  have j: "?j \<le> n" using assms by (intro randomIndex_less) auto
  let ?s = "swap n ?j s"
  have sw: "?s = s\<lparr>queue := (queue s)[n := queue s ! ?j, ?j := queue s ! n]\<rparr>"
    using Suc.prems j by (intro swap_in_range) auto
  have len: "n \<le> length (queue ?s)" using Suc.prems by (simp add: sw)
  note IH = Suc.IH[OF len]
  have m: "mset (queue ?s) = mset (queue s)"
    using Suc.prems j by (simp add: sw mset_swap)
  have d: "drop (Suc n) (queue ?s) = drop (Suc n) (queue s)"
    using j by (simp add: sw)
  have "drop (Suc n) (queue (shuffle_loop rnd n ?s)) = drop (Suc n) (queue ?s)"
    using IH by (metis drop_drop plus_1_eq_Suc)
  moreover have "shuffle_loop rnd n ?s = s\<lparr>queue := queue (shuffle_loop rnd n ?s)\<rparr>"
  proof -
    have "shuffle_loop rnd n ?s = ?s\<lparr>queue := queue (shuffle_loop rnd n ?s)\<rparr>"
      using IH by blast
    also have "\<dots> = s\<lparr>queue := queue (shuffle_loop rnd n ?s)\<rparr>"
      by (simp add: sw)
    finally show ?thesis .
  qed
  moreover have "mset (queue (shuffle_loop rnd n ?s)) = mset (queue s)"
    using IH m by simp
  ultimately show ?case using d by simp
qed

lemma shuffle_loop_cong:
  "(\<forall>k. 1 \<le> k \<and> k \<le> n \<longrightarrow> randomIndex rnd k = randomIndex rnd' k) \<Longrightarrow>
   shuffle_loop rnd n s = shuffle_loop rnd' n s"
  by (induction n arbitrary: s) auto

lemma randomIndex_choose:
  assumes "j \<le> n"
  shows "randomIndex (r(Suc n := of_nat j / of_nat (Suc n))) (Suc n) = j"
proof -
  have "(of_nat j / of_nat (Suc n)) * (of_nat (Suc n) :: rat) = of_nat j"
    by (simp del: of_nat_Suc)
  then show ?thesis
    by (simp add: randomIndex_def del: of_nat_Suc)
qed

lemma choose_in_range:
  assumes "j \<le> n"
  shows "0 \<le> (of_nat j / of_nat (Suc n) :: rat) \<and> (of_nat j / of_nat (Suc n) :: rat) < 1"
  using assms by (simp del: of_nat_Suc)

lemma shuffle_loop_reaches:
  "n \<le> length (queue s) \<Longrightarrow> length p = length (queue s) \<Longrightarrow>
   mset (take n p) = mset (take n (queue s)) \<Longrightarrow> drop n p = drop n (queue s) \<Longrightarrow>
   \<exists>rnd. (\<forall>k. 0 \<le> rnd k \<and> rnd k < 1) \<and> queue (shuffle_loop rnd n s) = p"
proof (induction n arbitrary: s)
  case 0
  then have "queue (shuffle_loop (\<lambda>_. 0) 0 s) = p" by simp
  then show ?case by (intro exI[of _ "\<lambda>_. 0"]) simp
next
  case (Suc n)
  let ?q = "queue s"
  have n: "n < length ?q" "n < length p" using Suc.prems by auto
  have tp: "take (Suc n) p = take n p @ [p ! n]"
    using n by (simp add: take_Suc_conv_app_nth)
  have "p ! n \<in> set (take (Suc n) p)" by (simp add: tp)
  then have "p ! n \<in> set (take (Suc n) ?q)"
    using Suc.prems(3) by (metis set_mset_mset)
  then obtain j where j: "j \<le> n" "?q ! j = p ! n"
    using n by (auto simp: in_set_conv_nth less_Suc_eq_le)
  let ?q' = "?q[n := ?q ! j, j := ?q ! n]"
  let ?s' = "swap n j s"
  have sw: "?s' = s\<lparr>queue := ?q'\<rparr>"
    using n j by (intro swap_in_range) auto
  have q'n: "?q' ! n = p ! n"
    using n j by (cases "j = n") auto
  have tq': "take (Suc n) ?q' = take n ?q' @ [p ! n]"
    using n q'n by (simp add: take_Suc_conv_app_nth)
  let ?t = "take (Suc n) ?q"
  have "take (Suc n) ?q' = ?t[n := ?t ! j, j := ?t ! n]"
    using j(1) by (simp add: take_update_swap)
  moreover have "mset (?t[n := ?t ! j, j := ?t ! n]) = mset ?t"
    using n j(1) by (intro mset_swap) auto
  ultimately have "mset (take (Suc n) ?q') = mset (take (Suc n) ?q)"
    by simp
  then have "add_mset (p ! n) (mset (take n ?q')) = add_mset (p ! n) (mset (take n p))"
    using Suc.prems(3) tp tq' by simp
  then have m: "mset (take n p) = mset (take n (queue ?s'))"
    by (simp add: sw)
  have "drop (Suc n) ?q' = drop (Suc n) p"
    using j Suc.prems(4) by simp
  then have d: "drop n p = drop n (queue ?s')"
    using n q'n by (simp add: sw Cons_nth_drop_Suc[symmetric])
  have l: "n \<le> length (queue ?s')" "length p = length (queue ?s')"
    using n Suc.prems by (simp_all add: sw)
  from Suc.IH[OF l m d] obtain rnd'
    where r: "\<forall>k. 0 \<le> rnd' k \<and> rnd' k < 1" "queue (shuffle_loop rnd' n ?s') = p"
    by blast
  let ?rnd = "rnd'(Suc n := of_nat j / of_nat (Suc n))"
  have c: "randomIndex ?rnd (Suc n) = j"
    using j by (intro randomIndex_choose)
  have "shuffle_loop ?rnd n ?s' = shuffle_loop rnd' n ?s'"
    by (intro shuffle_loop_cong) (simp add: randomIndex_def)
  then have "queue (shuffle_loop ?rnd (Suc n) s) = p"
    using c r by simp
  moreover have "\<forall>k. 0 \<le> ?rnd k \<and> ?rnd k < 1"
    using r choose_in_range[OF j(1)] by (simp del: of_nat_Suc)
  ultimately show ?case by blast
qed

lemma shuffle_loop_choices:
  assumes "\<forall>k. 0 \<le> rnd k \<and> rnd k < 1" "\<forall>k. 0 \<le> rnd' k \<and> rnd' k < 1"
  shows "distinct (queue s) \<Longrightarrow> n \<le> length (queue s) \<Longrightarrow>
    queue (shuffle_loop rnd n s) = queue (shuffle_loop rnd' n s) \<Longrightarrow>
    1 \<le> k \<Longrightarrow> k \<le> n \<Longrightarrow> randomIndex rnd k = randomIndex rnd' k"
proof (induction n arbitrary: s)
  case 0
  then show ?case by simp
next
  case (Suc n)
  let ?q = "queue s"
  let ?j = "randomIndex rnd (Suc n)" and ?j' = "randomIndex rnd' (Suc n)"
  have n: "n < length ?q" using Suc.prems by auto
  have j: "?j \<le> n" "?j' \<le> n"
    using assms by (auto intro!: randomIndex_less)
  have sw: "swap n ?j s = s\<lparr>queue := ?q[n := ?q ! ?j, ?j := ?q ! n]\<rparr>"
       "swap n ?j' s = s\<lparr>queue := ?q[n := ?q ! ?j', ?j' := ?q ! n]\<rparr>"
    using n j by (auto intro!: swap_in_range)
  have len: "n \<le> length (queue (swap n ?j s))" "n \<le> length (queue (swap n ?j' s))"
    using n by (simp_all add: sw)
  have keep: "queue (shuffle_loop r n t) ! n = queue t ! n"
    if "\<forall>k. 0 \<le> r k \<and> r k < 1" "n < length (queue t)" for r t
  proof -
    have f: "mset (queue (shuffle_loop r n t)) = mset (queue t)"
      "drop n (queue (shuffle_loop r n t)) = drop n (queue t)"
      using shuffle_loop_mset[OF that(1), of n t] that(2) by auto
    have "length (queue (shuffle_loop r n t)) = length (queue t)"
      using f(1) by (rule mset_eq_length)
    then have "queue (shuffle_loop r n t) ! n = hd (drop n (queue (shuffle_loop r n t)))"
      using that(2) by (simp add: hd_drop_conv_nth)
    also have "\<dots> = queue t ! n"
      using that(2) by (simp add: f(2) hd_drop_conv_nth)
    finally show ?thesis .
  qed
  have "queue (shuffle_loop rnd n (swap n ?j s)) ! n = queue (swap n ?j s) ! n"
    using n by (intro keep[OF assms(1)]) (simp add: sw)
  moreover have "queue (swap n ?j s) ! n = ?q ! ?j"
    unfolding sw(1) using n j(1) by (cases "?j = n") simp_all
  ultimately have a: "queue (shuffle_loop rnd (Suc n) s) ! n = ?q ! ?j"
    by simp
  have "queue (shuffle_loop rnd' n (swap n ?j' s)) ! n = queue (swap n ?j' s) ! n"
    using n by (intro keep[OF assms(2)]) (simp add: sw)
  moreover have "queue (swap n ?j' s) ! n = ?q ! ?j'"
    unfolding sw(2) using n j(2) by (cases "?j' = n") simp_all
  ultimately have b: "queue (shuffle_loop rnd' (Suc n) s) ! n = ?q ! ?j'"
    by simp
  have "?q ! ?j = ?q ! ?j'" using a b Suc.prems(3) by simp
  then have eq: "?j = ?j'"
    using Suc.prems(1) n j by (simp add: nth_eq_iff_index_eq)
  show ?case
  proof (cases "k = Suc n")
    case True
    then show ?thesis using eq by simp
  next
    case False
    have "distinct (queue (swap n ?j s))"
      using Suc.prems(1) n j by (simp add: sw distinct_swap)
    moreover have "queue (shuffle_loop rnd n (swap n ?j s)) = queue (shuffle_loop rnd' n (swap n ?j s))"
      using Suc.prems(3) eq by simp
    ultimately show ?thesis
      using Suc.IH[OF _ len(1)] Suc.prems(4,5) False by simp
  qed
qed

text \<open>
  C9. \<open>shuffle()\<close> permutes the queue: for draws in \<open>[0, 1)\<close> the multiset of
  the slots and the length stay the same and nothing but the queue of the subscription
  changes. The loop is the shuffle of Fisher and Yates: the slot at \<open>currentIndex - 1\<close>
  is exchanged with a slot drawn among the first \<open>currentIndex\<close> ones. Every
  reordering of the queue is the result of some draws, and on a queue without repeated
  slots the indices drawn are determined by the result; so equally likely indices give
  equally likely reorderings.
\<close>

theorem shuffle_fisher_yates:
  assumes "\<forall>k. 0 \<le> rnd k \<and> rnd k < 1"
  shows "mset (queue (shuffle rnd s)) = mset (queue s) \<and>
         length (queue (shuffle rnd s)) = length (queue s) \<and>
         shuffle rnd s = s\<lparr>queue := queue (shuffle rnd s)\<rparr> \<and>
         (\<forall>p. mset p = mset (queue s) \<longrightarrow>
              (\<exists>r. (\<forall>k. 0 \<le> r k \<and> r k < 1) \<and> queue (shuffle r s) = p)) \<and>
         (\<forall>r. (\<forall>k. 0 \<le> r k \<and> r k < 1) \<and> distinct (queue s) \<and>
              queue (shuffle r s) = queue (shuffle rnd s) \<longrightarrow>
              (\<forall>k. 1 \<le> k \<and> k \<le> length (queue s) \<longrightarrow> randomIndex r k = randomIndex rnd k))"
proof -
  let ?n = "length (queue s)"
  have f: "shuffle_loop rnd ?n s = s\<lparr>queue := queue (shuffle_loop rnd ?n s)\<rparr>"
    "mset (queue (shuffle_loop rnd ?n s)) = mset (queue s)"
    using shuffle_loop_mset[OF assms, of ?n s] by auto
  have len: "length (queue (shuffle rnd s)) = ?n"
    using f(2) unfolding shuffle_def by (rule mset_eq_length)
  have onto: "\<exists>r. (\<forall>k. 0 \<le> r k \<and> r k < 1) \<and> queue (shuffle r s) = p"
    if "mset p = mset (queue s)" for p
  proof -
    have "length p = ?n" using that by (rule mset_eq_length)
    then show ?thesis
      unfolding shuffle_def using that by (intro shuffle_loop_reaches) simp_all
  qed
  have one: "randomIndex r k = randomIndex rnd k"
    if "\<forall>k. 0 \<le> r k \<and> r k < 1" "distinct (queue s)"
       "queue (shuffle r s) = queue (shuffle rnd s)" "1 \<le> k" "k \<le> ?n" for r k
    using shuffle_loop_choices[OF that(1) assms that(2) le_refl _ that(4,5)] that(3)
    by (simp add: shuffle_def)
  show ?thesis
    using f len onto one unfolding shuffle_def[symmetric] by blast
qed

lemma swap_sub0_eval:
  "queue (shuffle (\<lambda>k. 0) sub0) = [Some trackB, Some trackC, Some trackA]"
  by (simp add: shuffle_def sub0_def new_MusicSubscription_def eval_nat_numeral swap_def
      js_get_def js_set_def randomIndex_def Let_def)

theorem shuffle_fisher_yates_witness:
  "(\<forall>k::nat. (0::rat) \<le> 0 \<and> (0::rat) < 1) \<and>
   queue (shuffle (\<lambda>k. 0) sub0) = [Some trackB, Some trackC, Some trackA] \<and>
   mset (queue (shuffle (\<lambda>k. 0) sub0)) = mset (queue sub0)"
  using shuffle_fisher_yates[of "\<lambda>k. 0" sub0] swap_sub0_eval by simp

section \<open>Auxiliary facts about worlds\<close>

lemma put_simps [simp]:
  "subscriptions (put r s w) = subscriptions w"
  "allocated (put r s w) = allocated w"
  "trace (put r s w) = trace w"
  "tasks (put r s w) = tasks w"
  by (simp_all add: put_def)

lemma emit_simps [simp]:
  "subscriptions (emit e w) = subscriptions w"
  "allocated (emit e w) = allocated w"
  "trace (emit e w) = trace w @ [e]"
  "tasks (emit e w) = tasks w"
  by (simp_all add: emit_def)

lemma suspend_simps [simp]:
  "subscriptions (suspend t w) = subscriptions w"
  "allocated (suspend t w) = allocated w"
  "trace (suspend t w) = trace w"
  "tasks (suspend t w) = tasks w @ [t]"
  by (simp_all add: suspend_def)

lemma settle_simps [simp]:
  "subscriptions (settle t w) = subscriptions w"
  "allocated (settle t w) = allocated w"
  "trace (settle t w) = trace w"
  "tasks (settle t w) = remove1 t (tasks w)"
  by (simp_all add: settle_def)

lemma modify_Some: "heap w this = Some s \<Longrightarrow> modify this f w = put this (f s) w"
  by (simp add: modify_def)

lemma modify_simps [simp]:
  "subscriptions (modify r f w) = subscriptions w"
  "allocated (modify r f w) = allocated w"
  "trace (modify r f w) = trace w"
  "tasks (modify r f w) = tasks w"
  by (simp_all add: modify_def split: option.splits)

lemma heap_modify_Some: "heap w this = Some s \<Longrightarrow> heap (modify this f w) = (heap w)(this \<mapsto> f s)"
  by (simp add: modify_def)

lemma world_eqI:
  "heap w' = heap w \<Longrightarrow> subscriptions w' = subscriptions w \<Longrightarrow> allocated w' = allocated w \<Longrightarrow>
   trace w' = trace w \<Longrightarrow> tasks w' = tasks w \<Longrightarrow> w' = (w :: world)"
  by (rule world.equality) simp_all

section \<open>A track that fails is skipped\<close>

lemma processQueue_takes:
  assumes "heap w this = Some s" "\<not> queueLock s" "ap_status (audioPlayer s) = Idle"
    "queue s = Some t # rest"
  shows "processQueue this w =
    suspend (CreatingResource this t)
      (put this (s\<lparr>wait := False, queueLock := True, queue := rest\<rparr>) w)"
  using assms by (simp add: processQueue_def Let_def)

lemma processQueue_idle:
  assumes "heap w this = Some s"
    "queueLock s \<or> ap_status (audioPlayer s) \<noteq> Idle \<or> queue s = []"
  shows "processQueue this w = put this (s\<lparr>wait := False\<rparr>) w"
  using assms by (auto simp add: processQueue_def Let_def)

lemma processQueue_resume_failed:
  assumes "CreatingResource this t \<in> set (tasks w)" "heap w this = Some s"
  shows "processQueue_resume this t (Inl e) w =
    processQueue this
      (put this (s\<lparr>queueLock := False\<rparr>) (emit (OnError t e) (settle (CreatingResource this t) w)))"
  using assms by (simp add: processQueue_resume_def Let_def modify_Some)

lemma ap_stateChange_buffering:
  "ap_stateChange this old \<lparr>ap_status = Buffering, ap_resource = r\<rparr> w = w"
  by (simp add: ap_stateChange_def)

lemma processQueue_resume_played:
  assumes "CreatingResource this t \<in> set (tasks w)" "heap w this = Some s"
  shows "processQueue_resume this t (Inr r) w =
    put this (s\<lparr>audioPlayer := \<lparr>ap_status = Buffering, ap_resource = Some r\<rparr>, queueLock := False\<rparr>)
      (settle (CreatingResource this t) w)"
  using assms
  by (simp add: processQueue_resume_def Let_def ap_play_def ap_enters_def modify_Some
      ap_stateChange_buffering put_def)

text \<open>
  C1 (as amended). The queue starts with track \<open>A\<close> followed by track \<open>B\<close>, the
  lock is free, the player idle and no resource is being created. \<open>processQueue()\<close>
  asks \<open>A\<close> for its resource. When that fails, \<open>A\<close>'s \<open>onError\<close> is the one
  event that follows (no \<open>onFinish\<close>), the lock is released (the state \<open>caught\<close>)
  and \<open>processQueue()\<close> runs again at once: it takes the lock back, \<open>B\<close> is the
  track whose resource is asked for next, and the rest of the queue keeps its order.
  Nothing else of the subscription changes and the registry is untouched. When the
  resource of \<open>B\<close> arrives, it is what the player gets, and the lock is free again.
\<close>

theorem processQueue_failed_track:
  assumes "heap w this = Some s" "\<not> queueLock s" "ap_status (audioPlayer s) = Idle"
    "queue s = Some A # Some B # rest" "\<forall>t. CreatingResource this t \<notin> set (tasks w)"
  shows "let w1 = processQueue this w;
             caught = put this (s\<lparr>wait := False, queueLock := False, queue := Some B # rest\<rparr>)
                        (emit (OnError A e) (settle (CreatingResource this A) w1));
             w2 = processQueue_resume this A (Inl e) w1;
             w3 = processQueue_resume this B (Inr r) w2
         in tasks w1 = tasks w @ [CreatingResource this A] \<and> trace w1 = trace w \<and>
            processQueue this caught = w2 \<and>
            trace w2 = trace w @ [OnError A e] \<and>
            tasks w2 = tasks w @ [CreatingResource this B] \<and>
            heap w2 = (heap w)(this \<mapsto> s\<lparr>wait := False, queueLock := True, queue := rest\<rparr>) \<and>
            subscriptions w2 = subscriptions w \<and>
            trace w3 = trace w @ [OnError A e] \<and>
            tasks w3 = tasks w \<and>
            heap w3 = (heap w)(this \<mapsto> s\<lparr>wait := False, queueLock := False, queue := rest,
              audioPlayer := \<lparr>ap_status = Buffering, ap_resource = Some r\<rparr>\<rparr>) \<and>
            subscriptions w3 = subscriptions w"
proof -
  let ?w1 = "processQueue this w"
  have w1: "?w1 = suspend (CreatingResource this A)
      (put this (s\<lparr>wait := False, queueLock := True, queue := Some B # rest\<rparr>) w)"
    using assms by (simp add: processQueue_takes)
  let ?caught = "put this (s\<lparr>wait := False, queueLock := False, queue := Some B # rest\<rparr>)
                        (emit (OnError A e) (settle (CreatingResource this A) ?w1))"
  let ?w2 = "processQueue_resume this A (Inl e) ?w1"
  have r1: "s\<lparr>wait := False, queueLock := True, queue := Some B # rest, queueLock := False\<rparr> =
      s\<lparr>wait := False, queueLock := False, queue := Some B # rest\<rparr>"
    by (cases s) simp
  have w2a: "?w2 = processQueue this ?caught"
    by (subst processQueue_resume_failed[where s = "s\<lparr>wait := False, queueLock := True, queue := Some B # rest\<rparr>"])
       (simp_all add: w1 r1 del: MusicSubscription.simps)
  have w2: "?w2 = suspend (CreatingResource this B)
      (put this (s\<lparr>wait := False, queueLock := True, queue := rest\<rparr>) ?caught)"
    unfolding w2a
    by (subst processQueue_takes[where s = "s\<lparr>wait := False, queueLock := False, queue := Some B # rest\<rparr>" and t = B and rest = rest])
       (simp_all add: assms)
  let ?w3 = "processQueue_resume this B (Inr r) ?w2"
  have w3: "?w3 = put this (s\<lparr>wait := False, queueLock := True, queue := rest,
       audioPlayer := \<lparr>ap_status = Buffering, ap_resource = Some r\<rparr>, queueLock := False\<rparr>)
      (settle (CreatingResource this B) ?w2)"
    by (subst processQueue_resume_played[where s = "s\<lparr>wait := False, queueLock := True, queue := rest\<rparr>"])
       (simp_all add: w2)
  have t1: "tasks ?w1 = tasks w @ [CreatingResource this A]" "trace ?w1 = trace w"
    by (simp_all add: w1 assms)
  have t2: "trace ?w2 = trace w @ [OnError A e]" "tasks ?w2 = tasks w @ [CreatingResource this B]"
    "subscriptions ?w2 = subscriptions w"
    "heap ?w2 = (heap w)(this \<mapsto> s\<lparr>wait := False, queueLock := True, queue := rest\<rparr>)"
    unfolding w2 by (simp_all add: w1 assms remove1_append)
  have t3: "trace ?w3 = trace w @ [OnError A e]" "tasks ?w3 = tasks w"
    "subscriptions ?w3 = subscriptions w"
    "heap ?w3 = (heap w)(this \<mapsto> s\<lparr>wait := False, queueLock := False, queue := rest,
              audioPlayer := \<lparr>ap_status = Buffering, ap_resource = Some r\<rparr>\<rparr>)"
    unfolding w3 by (cases s; simp add: t2 assms remove1_append)+
  show ?thesis
    unfolding Let_def using t1 t2 t3 w2a[symmetric] by simp
qed

theorem processQueue_failed_track_witness:
  "heap world0 0 = Some sub0 \<and> \<not> queueLock sub0 \<and> ap_status (audioPlayer sub0) = Idle \<and>
   queue sub0 = [Some trackA, Some trackB, Some trackC] \<and> tasks world0 = [] \<and>
   trace (processQueue_resume 0 trackA (Inl (StreamError ''410'')) (processQueue 0 world0)) =
     [OnError trackA (StreamError ''410'')] \<and>
   tasks (processQueue_resume 0 trackA (Inl (StreamError ''410'')) (processQueue 0 world0)) =
     [CreatingResource 0 trackB]"
proof -
  have h: "heap world0 0 = Some sub0" "\<not> queueLock sub0" "ap_status (audioPlayer sub0) = Idle"
    "queue sub0 = Some trackA # Some trackB # [Some trackC]"
    "\<forall>t. CreatingResource 0 t \<notin> set (tasks world0)"
    by (simp_all add: world0_def sub0_def new_MusicSubscription_def)
  from processQueue_failed_track[OF h, of "StreamError ''410''" "\<lparr>metadata = trackB\<rparr>"]
  show ?thesis using h by (simp add: Let_def world0_def)
qed

text \<open>
  C1 as it was stated fails when \<open>B\<close> cannot produce its resource either: with the queue
  \<open>A, B, C\<close>, after the two failures the player is still idle and holds nothing, and
  the first resource it is given is that of \<open>C\<close>.
\<close>

theorem processQueue_next_played_counterexample:
  "map_option audioPlayer
     (heap (processQueue_resume 0 trackB (Inl (StreamError ''410''))
             (processQueue_resume 0 trackA (Inl (StreamError ''410'')) (processQueue 0 world0))) 0)
     = Some \<lparr>ap_status = Idle, ap_resource = None\<rparr> \<and>
   map_option audioPlayer
     (heap (processQueue_resume 0 trackC (Inr \<lparr>metadata = trackC\<rparr>)
             (processQueue_resume 0 trackB (Inl (StreamError ''410''))
               (processQueue_resume 0 trackA (Inl (StreamError ''410'')) (processQueue 0 world0)))) 0)
     = Some \<lparr>ap_status = Buffering, ap_resource = Some \<lparr>metadata = trackC\<rparr>\<rparr> \<and>
   trace (processQueue_resume 0 trackC (Inr \<lparr>metadata = trackC\<rparr>)
             (processQueue_resume 0 trackB (Inl (StreamError ''410''))
               (processQueue_resume 0 trackA (Inl (StreamError ''410'')) (processQueue 0 world0))))
     = [OnError trackA (StreamError ''410''), OnError trackB (StreamError ''410'')]"
  by (simp add: world0_def sub0_def new_MusicSubscription_def joinVoiceChannel_def
      processQueue_def processQueue_resume_def Let_def modify_def put_def emit_def suspend_def
      settle_def ap_play_def ap_enters_def ap_stateChange_def trackA_def trackB_def trackC_def)

section \<open>Stopping a subscription\<close>

declare stop.simps [simp del] vc_destroy.simps [simp del] vc_stateChange.simps [simp del]

text \<open>
  What a forced stop of the player makes the player's listener do while the queue is
  locked: the events (\<open>onFinish\<close> of the track the player held, unless that track
  is marked \<open>errored\<close>) and the new wait for \<open>Playing\<close>; and the fields of a
  subscription after \<open>stop()\<close>.
\<close>

definition stop_events :: "player_state \<Rightarrow> event list" where
  "stop_events p =
     (if ap_status p = Idle then []
      else case ap_resource p of
             None \<Rightarrow> [Unhandled TypeError]
           | Some r \<Rightarrow> if errored (metadata r) then [] else [OnFinish (metadata r)])"

definition stop_tasks :: "ref \<Rightarrow> player_state \<Rightarrow> task list" where
  "stop_tasks this p =
     (if ap_status p = Idle \<or> ap_resource p = None then [] else [EntersPlaying this])"

definition idle_state :: player_state where
  "idle_state = \<lparr>ap_status = Idle, ap_resource = None\<rparr>"

definition destroyed_state :: connection_state where
  "destroyed_state = \<lparr>vc_status = Destroyed, reason = None, closeCode = None\<rparr>"

definition stopped :: "MusicSubscription \<Rightarrow> MusicSubscription" where
  "stopped s =
     s\<lparr>queueLock := True, queue := [],
       audioPlayer := (if ap_status (audioPlayer s) = Idle then audioPlayer s else idle_state),
       destroyed := True,
       voiceConnection :=
         (if vc_status (vc_state (voiceConnection s)) = Destroyed then voiceConnection s
          else (voiceConnection s)\<lparr>vc_state := destroyed_state\<rparr>)\<rparr>"


lemma ap_stop_locked:
  assumes "heap w this = Some s" "queueLock s"
  shows "heap (ap_stop this True w) =
           (heap w)(this \<mapsto> s\<lparr>audioPlayer := (if ap_status (audioPlayer s) = Idle then audioPlayer s else idle_state)\<rparr>)"
    and "trace (ap_stop this True w) = trace w @ stop_events (audioPlayer s)"
    and "tasks (ap_stop this True w) = tasks w @ stop_tasks this (audioPlayer s)"
    and "subscriptions (ap_stop this True w) = subscriptions w"
    and "allocated (ap_stop this True w) = allocated w"
  using assms
  by (cases s; auto simp: ap_stop_def ap_enters_def ap_stateChange_def processQueue_def Let_def
      stop_events_def stop_tasks_def idle_state_def split: option.splits)+

lemma vc_live_Some:
  "heap w this = Some s \<Longrightarrow> vc_live this w = (vc_status (vc_state (voiceConnection s)) \<noteq> Destroyed)"
  by (simp add: vc_live_def connection_of_def)

lemma stop_dead:
  assumes "heap w this = Some s" "vc_status (vc_state (voiceConnection s)) = Destroyed"
  defines "P \<equiv> (if ap_status (audioPlayer s) = Idle then audioPlayer s else idle_state)"
  shows "heap (stop this w) =
           (heap w)(this \<mapsto> s\<lparr>queueLock := True, queue := [], audioPlayer := P, destroyed := True\<rparr>)"
    and "trace (stop this w) = trace w @ stop_events (audioPlayer s)"
    and "tasks (stop this w) = tasks w @ stop_tasks this (audioPlayer s)"
    and "subscriptions (stop this w) = (subscriptions w)(guildId s := None)"
    and "allocated (stop this w) = allocated w"
proof -
  let ?s2 = "s\<lparr>queueLock := True, queue := []\<rparr>"
  let ?w2 = "modify this (\<lambda>s. s\<lparr>queue := []\<rparr>) (modify this (\<lambda>s. s\<lparr>queueLock := True\<rparr>) w)"
  have h2: "heap ?w2 = (heap w)(this \<mapsto> ?s2)"
    using assms(1) by (simp add: heap_modify_Some)
  then have h2': "heap ?w2 this = Some ?s2" by simp
  let ?w3 = "ap_stop this True ?w2"
  note a = ap_stop_locked[OF h2', simplified]
  have h3: "heap ?w3 = (heap w)(this \<mapsto> ?s2\<lparr>audioPlayer := P\<rparr>)"
    using a(1) by (simp add: h2 P_def)
  let ?w4 = "modify this (\<lambda>s. s\<lparr>destroyed := True\<rparr>) ?w3"
  have h4: "heap ?w4 = (heap w)(this \<mapsto> ?s2\<lparr>audioPlayer := P, destroyed := True\<rparr>)"
    by (simp add: heap_modify_Some[where s = "?s2\<lparr>audioPlayer := P\<rparr>"] h3)
  have dead: "\<not> vc_live this ?w4"
    using assms(2) by (simp add: vc_live_def connection_of_def h4)
  have st: "stop this w = ?w4\<lparr>subscriptions := (subscriptions ?w4)(guildId s := None)\<rparr>"
    by (subst stop.simps) (simp add: Let_def dead h4)
  show "heap (stop this w) =
           (heap w)(this \<mapsto> s\<lparr>queueLock := True, queue := [], audioPlayer := P, destroyed := True\<rparr>)"
    by (simp add: st h4)
  show "trace (stop this w) = trace w @ stop_events (audioPlayer s)"
    by (simp add: st a)
  show "tasks (stop this w) = tasks w @ stop_tasks this (audioPlayer s)"
    by (simp add: st a)
  show "subscriptions (stop this w) = (subscriptions w)(guildId s := None)"
    by (simp add: st a)
  show "allocated (stop this w) = allocated w"
    by (simp add: st a)
qed

lemma vc_stateChange_Destroyed:
  "heap w this = Some s \<Longrightarrow> vc_status newState = Destroyed \<Longrightarrow>
   vc_stateChange this newState w = stop this w"
  by (subst vc_stateChange.simps) simp

lemma vc_destroy_live:
  assumes "heap w this = Some s" "vc_status (vc_state (voiceConnection s)) \<noteq> Destroyed"
  shows "vc_destroy this w =
    stop this (emit (VcDestroy this)
      (put this (s\<lparr>voiceConnection := (voiceConnection s)\<lparr>vc_state := destroyed_state\<rparr>\<rparr>) w))"
proof -
  have "vc_destroy this w =
    vc_stateChange this destroyed_state (emit (VcDestroy this)
      (put this (s\<lparr>voiceConnection := (voiceConnection s)\<lparr>vc_state := destroyed_state\<rparr>\<rparr>) w))"
    using assms
    by (subst vc_destroy.simps) (simp add: vc_live_Some Let_def modify_Some destroyed_state_def)
  also have "\<dots> = stop this (emit (VcDestroy this)
      (put this (s\<lparr>voiceConnection := (voiceConnection s)\<lparr>vc_state := destroyed_state\<rparr>\<rparr>) w))"
    by (rule vc_stateChange_Destroyed) (simp_all add: destroyed_state_def)
  finally show ?thesis .
qed

lemma vc_destroy_dead:
  assumes "heap w this = Some s" "vc_status (vc_state (voiceConnection s)) = Destroyed"
  shows "vc_destroy this w = emit (VcDestroy this) w"
  using assms by (subst vc_destroy.simps) (simp add: vc_live_Some)

lemma stop_live:
  assumes "heap w this = Some s" "vc_status (vc_state (voiceConnection s)) \<noteq> Destroyed"
  defines "P \<equiv> (if ap_status (audioPlayer s) = Idle then audioPlayer s else idle_state)"
  shows "heap (stop this w) =
           (heap w)(this \<mapsto> s\<lparr>queueLock := True, queue := [], audioPlayer := P, destroyed := True,
              voiceConnection := (voiceConnection s)\<lparr>vc_state := destroyed_state\<rparr>\<rparr>)"
    and "trace (stop this w) = trace w @ stop_events (audioPlayer s) @ [VcDestroy this]"
    and "tasks (stop this w) = tasks w @ stop_tasks this (audioPlayer s)"
    and "subscriptions (stop this w) = (subscriptions w)(guildId s := None)"
    and "allocated (stop this w) = allocated w"
proof -
  let ?s2 = "s\<lparr>queueLock := True, queue := []\<rparr>"
  let ?w2 = "modify this (\<lambda>s. s\<lparr>queue := []\<rparr>) (modify this (\<lambda>s. s\<lparr>queueLock := True\<rparr>) w)"
  have h2: "heap ?w2 = (heap w)(this \<mapsto> ?s2)"
    using assms(1) by (simp add: heap_modify_Some)
  then have h2': "heap ?w2 this = Some ?s2" by simp
  let ?w3 = "ap_stop this True ?w2"
  note a = ap_stop_locked[OF h2', simplified]
  have h3: "heap ?w3 = (heap w)(this \<mapsto> ?s2\<lparr>audioPlayer := P\<rparr>)"
    using a(1) by (simp add: h2 P_def)
  let ?s4 = "?s2\<lparr>audioPlayer := P, destroyed := True\<rparr>"
  let ?w4 = "modify this (\<lambda>s. s\<lparr>destroyed := True\<rparr>) ?w3"
  have h4: "heap ?w4 = (heap w)(this \<mapsto> ?s4)"
    by (simp add: heap_modify_Some[where s = "?s2\<lparr>audioPlayer := P\<rparr>"] h3)
  have live: "vc_live this ?w4"
    using assms(2) by (simp add: vc_live_def connection_of_def h4)
  let ?s5 = "?s4\<lparr>voiceConnection := (voiceConnection s)\<lparr>vc_state := destroyed_state\<rparr>\<rparr>"
  let ?w5 = "emit (VcDestroy this) (put this ?s5 ?w4)"
  have h5: "heap ?w5 = (heap w)(this \<mapsto> ?s5)"
    by (simp add: h4)
  have d: "vc_destroy this ?w4 = stop this ?w5"
    using assms(2) by (subst vc_destroy_live[where s = "?s4"]) (simp_all add: h4)
  have h5': "heap ?w5 this = Some ?s5" by (simp add: h5)
  have dead5: "vc_status (vc_state (voiceConnection ?s5)) = Destroyed"
    by (simp add: destroyed_state_def)
  note n = stop_dead[OF h5' dead5]
  have Pidle: "ap_status P = Idle" by (simp add: P_def idle_state_def)
  have st: "stop this w = (let w5 = stop this ?w5 in
      case heap w5 this of None \<Rightarrow> w5
      | Some s \<Rightarrow> w5\<lparr>subscriptions := (subscriptions w5)(guildId s := None)\<rparr>)"
    by (subst stop.simps) (simp only: Let_def live if_True d)
  have hn: "heap (stop this ?w5) = (heap w)(this \<mapsto> ?s5)"
    unfolding n(1) h5 using Pidle by (cases s) simp
  show "heap (stop this w) =
           (heap w)(this \<mapsto> s\<lparr>queueLock := True, queue := [], audioPlayer := P, destroyed := True,
              voiceConnection := (voiceConnection s)\<lparr>vc_state := destroyed_state\<rparr>\<rparr>)"
    by (simp add: st Let_def hn)
  show "trace (stop this w) = trace w @ stop_events (audioPlayer s) @ [VcDestroy this]"
    using Pidle by (simp add: st Let_def hn n(2) a stop_events_def)
  show "tasks (stop this w) = tasks w @ stop_tasks this (audioPlayer s)"
    using Pidle by (simp add: st Let_def hn n(3) a stop_tasks_def)
  show "subscriptions (stop this w) = (subscriptions w)(guildId s := None)"
    by (simp add: st Let_def hn n(4) a)
  show "allocated (stop this w) = allocated w"
    by (simp add: st Let_def hn n(5) a)
qed

lemma stop_done:
  assumes "heap w this = Some s" "queueLock s" "queue s = []" "ap_status (audioPlayer s) = Idle"
    "destroyed s" "vc_status (vc_state (voiceConnection s)) = Destroyed"
    "subscriptions w (guildId s) = None"
  shows "stop this w = w"
proof (rule world_eqI)
  note d = stop_dead[OF assms(1,6)]
  have "s\<lparr>queueLock := True, queue := [], audioPlayer := audioPlayer s, destroyed := True\<rparr> = s"
    using assms by (cases s) simp
  then show "heap (stop this w) = heap w"
    using assms(1,4) by (simp add: d(1) map_upd_triv)
  show "trace (stop this w) = trace w"
    using assms(4) by (simp add: d(2) stop_events_def)
  show "tasks (stop this w) = tasks w"
    using assms(4) by (simp add: d(3) stop_tasks_def)
  show "subscriptions (stop this w) = subscriptions w"
    using assms(7) by (simp add: d(4) fun_upd_idem)
  show "allocated (stop this w) = allocated w"
    by (simp add: d(5))
qed

lemma stop_Some:
  assumes "heap w this = Some s"
  shows "heap (stop this w) = (heap w)(this \<mapsto> stopped s)"
    and "trace (stop this w) =
           trace w @ stop_events (audioPlayer s) @
             (if vc_status (vc_state (voiceConnection s)) = Destroyed then [] else [VcDestroy this])"
    and "tasks (stop this w) = tasks w @ stop_tasks this (audioPlayer s)"
    and "subscriptions (stop this w) = (subscriptions w)(guildId s := None)"
    and "allocated (stop this w) = allocated w"
proof -
  show "heap (stop this w) = (heap w)(this \<mapsto> stopped s)"
  proof (cases "vc_status (vc_state (voiceConnection s)) = Destroyed")
    case True
    have "s\<lparr>queueLock := True, queue := [],
       audioPlayer := (if ap_status (audioPlayer s) = Idle then audioPlayer s else idle_state),
       destroyed := True\<rparr> = stopped s"
      using True by (cases s) (simp add: stopped_def)
    then show ?thesis using stop_dead(1)[OF assms True] by simp
  next
    case False
    show ?thesis using stop_live(1)[OF assms False] False by (simp add: stopped_def)
  qed
  show "trace (stop this w) =
           trace w @ stop_events (audioPlayer s) @
             (if vc_status (vc_state (voiceConnection s)) = Destroyed then [] else [VcDestroy this])"
    using stop_dead(2)[OF assms] stop_live(2)[OF assms] by simp
  show "tasks (stop this w) = tasks w @ stop_tasks this (audioPlayer s)"
    using stop_dead(3)[OF assms] stop_live(3)[OF assms] by blast
  show "subscriptions (stop this w) = (subscriptions w)(guildId s := None)"
    using stop_dead(4)[OF assms] stop_live(4)[OF assms] by blast
  show "allocated (stop this w) = allocated w"
    using stop_dead(5)[OF assms] stop_live(5)[OF assms] by blast
qed

lemma stop_stop:
  assumes "heap w this = Some s"
  shows "stop this (stop this w) = stop this w"
proof (rule stop_done[where s = "stopped s"])
  note a = stop_Some[OF assms]
  show "heap (stop this w) this = Some (stopped s)" by (simp add: a(1))
  show "queueLock (stopped s)" "queue (stopped s) = []" "destroyed (stopped s)"
    by (simp_all add: stopped_def)
  show "ap_status (audioPlayer (stopped s)) = Idle"
    by (simp add: stopped_def idle_state_def)
  show "vc_status (vc_state (voiceConnection (stopped s))) = Destroyed"
    by (simp add: stopped_def destroyed_state_def)
  show "subscriptions (stop this w) (guildId (stopped s)) = None"
    by (simp add: a(4) stopped_def)
qed

text \<open>
  C2. \<open>stop()\<close> on any subscription leaves the queue locked and empty, the player
  idle, the subscription marked destroyed, the connection destroyed and the guild's entry
  gone from the registry. Its only events are those of the forced stop of the player
  (\<open>onFinish\<close> of the track that was playing; no callback of a queued track) and one
  call of \<open>destroy()\<close>, made only when the connection was not destroyed yet. A second
  \<open>stop()\<close> changes nothing at all, whether it is called directly or by the
  connection's listener on \<open>Destroyed\<close>, before or after the first: no event is
  repeated.
\<close>

theorem stop_idempotent:
  assumes "heap w this = Some s"
  shows "heap (stop this w) = (heap w)(this \<mapsto> stopped s) \<and>
         queue (stopped s) = [] \<and> queueLock (stopped s) \<and>
         ap_status (audioPlayer (stopped s)) = Idle \<and> destroyed (stopped s) \<and>
         vc_status (vc_state (voiceConnection (stopped s))) = Destroyed \<and>
         subscriptions (stop this w) = (subscriptions w)(guildId s := None) \<and>
         trace (stop this w) =
           trace w @ stop_events (audioPlayer s) @
             (if vc_status (vc_state (voiceConnection s)) = Destroyed then [] else [VcDestroy this]) \<and>
         stop this (stop this w) = stop this w \<and>
         vc_stateChange this destroyed_state (stop this w) = stop this w \<and>
         stop this (vc_stateChange this destroyed_state w) = stop this w"
proof -
  note a = stop_Some[OF assms]
  have i: "stop this (stop this w) = stop this w"
    using assms by (rule stop_stop)
  have "heap (stop this w) this = Some (stopped s)" by (simp add: a(1))
  then have j: "vc_stateChange this destroyed_state (stop this w) = stop this (stop this w)"
    by (rule vc_stateChange_Destroyed) (simp add: destroyed_state_def)
  have k: "vc_stateChange this destroyed_state w = stop this w"
    using assms by (rule vc_stateChange_Destroyed) (simp add: destroyed_state_def)
  show ?thesis
    using a i j k
    by (simp add: stopped_def idle_state_def destroyed_state_def)
qed

theorem stop_idempotent_witness:
  "heap world_playing 0 = Some sub_playing \<and>
   trace (stop 0 world_playing) = [OnFinish trackA, VcDestroy 0] \<and>
   subscriptions (stop 0 world_playing) ''g'' = None \<and>
   stop 0 (stop 0 world_playing) = stop 0 world_playing"
proof -
  have h: "heap world_playing 0 = Some sub_playing"
    by (simp add: world_playing_def)
  have e: "stop_events (audioPlayer sub_playing) = [OnFinish trackA]"
    "vc_status (vc_state (voiceConnection sub_playing)) \<noteq> Destroyed"
    "guildId sub_playing = ''g''" "trace world_playing = []"
    "subscriptions world_playing = [''g'' \<mapsto> 0]"
    by (simp_all add: stop_events_def sub_playing_def sub0_def new_MusicSubscription_def
        joinVoiceChannel_def trackA_def world_playing_def world0_def)
  from stop_idempotent[OF h] show ?thesis
    using h by (simp add: e)
qed

section \<open>The player's listener on entering Idle\<close>

lemma vc_destroy_Some:
  assumes "heap w this = Some s" "vc_status (vc_state (voiceConnection s)) \<noteq> Destroyed"
  shows "heap (vc_destroy this w) = (heap w)(this \<mapsto> stopped s)"
    and "trace (vc_destroy this w) = trace w @ [VcDestroy this] @ stop_events (audioPlayer s)"
    and "tasks (vc_destroy this w) = tasks w @ stop_tasks this (audioPlayer s)"
    and "subscriptions (vc_destroy this w) = (subscriptions w)(guildId s := None)"
    and "allocated (vc_destroy this w) = allocated w"
proof -
  let ?s = "s\<lparr>voiceConnection := (voiceConnection s)\<lparr>vc_state := destroyed_state\<rparr>\<rparr>"
  let ?w = "emit (VcDestroy this) (put this ?s w)"
  have d: "vc_destroy this w = stop this ?w"
    using assms by (rule vc_destroy_live)
  have h: "heap ?w this = Some ?s" by simp
  have dead: "vc_status (vc_state (voiceConnection ?s)) = Destroyed"
    by (simp add: destroyed_state_def)
  note n = stop_dead[OF h dead]
  have "?s\<lparr>queueLock := True, queue := [],
       audioPlayer := (if ap_status (audioPlayer ?s) = Idle then audioPlayer ?s else idle_state),
       destroyed := True\<rparr> = stopped s"
    using assms(2) by (cases s) (simp add: stopped_def)
  then show "heap (vc_destroy this w) = (heap w)(this \<mapsto> stopped s)"
    unfolding d n(1) by simp
  show "trace (vc_destroy this w) = trace w @ [VcDestroy this] @ stop_events (audioPlayer s)"
    unfolding d n(2) by simp
  show "tasks (vc_destroy this w) = tasks w @ stop_tasks this (audioPlayer s)"
    unfolding d n(3) by simp
  show "subscriptions (vc_destroy this w) = (subscriptions w)(guildId s := None)"
    unfolding d n(4) by simp
  show "allocated (vc_destroy this w) = allocated w"
    unfolding d n(5) by simp
qed





section \<open>Leaving after thirty idle seconds\<close>

lemma ap_stateChange_idle_empty:
  assumes "heap w this = Some s" "queue s = []" "ap_status newState = Idle"
    "ap_status oldState \<noteq> Idle" "ap_resource oldState = Some r"
  shows "heap (ap_stateChange this oldState newState w) = heap w"
    and "trace (ap_stateChange this oldState newState w) =
           trace w @ (if errored (metadata r) then [] else [OnFinish (metadata r)])"
    and "tasks (ap_stateChange this oldState newState w) = tasks w @ [EntersPlaying this]"
    and "subscriptions (ap_stateChange this oldState newState w) = subscriptions w"
    and "allocated (ap_stateChange this oldState newState w) = allocated w"
proof -
  have "\<not> wait s \<Longrightarrow> s\<lparr>wait := False\<rparr> = s" by (cases s) simp
  then show "heap (ap_stateChange this oldState newState w) = heap w"
    using assms
    by (auto simp: ap_stateChange_def Let_def processQueue_def map_upd_triv)
qed (use assms in \<open>auto simp: ap_stateChange_def Let_def processQueue_def\<close>)

lemma ap_entersPlaying_timeout:
  assumes "EntersPlaying this \<in> set (tasks w)" "heap w this = Some s"
  defines "w' \<equiv> ap_entersPlaying_resume this False w"
  defines "live \<equiv> vc_status (vc_state (voiceConnection s)) \<noteq> Destroyed"
  shows "heap w' = (if live then (heap w)(this \<mapsto> stopped s) else heap w)"
    and "trace w' = trace w @ [Send (lastTextChannel s) LeftForInactivity] @
           (if live then [VcDestroy this] @ stop_events (audioPlayer s) else [])"
    and "tasks w' = remove1 (EntersPlaying this) (tasks w) @
           (if live then stop_tasks this (audioPlayer s) else [])"
    and "subscriptions w' = (if live then (subscriptions w)(guildId s := None) else subscriptions w)"
    and "allocated w' = allocated w"
proof -
  let ?w1 = "emit (Send (lastTextChannel s) LeftForInactivity) (settle (EntersPlaying this) w)"
  have h: "heap ?w1 this = Some s" using assms(2) by simp
  have w': "w' = (if live then vc_destroy this ?w1 else ?w1)"
    using assms(1,2) h
    by (simp add: w'_def live_def ap_entersPlaying_resume_def Let_def vc_live_Some)
  show "heap w' = (if live then (heap w)(this \<mapsto> stopped s) else heap w)"
    using vc_destroy_Some(1)[OF h] by (simp add: w' live_def)
  show "trace w' = trace w @ [Send (lastTextChannel s) LeftForInactivity] @
           (if live then [VcDestroy this] @ stop_events (audioPlayer s) else [])"
    using vc_destroy_Some(2)[OF h] by (simp add: w' live_def)
  show "tasks w' = remove1 (EntersPlaying this) (tasks w) @
           (if live then stop_tasks this (audioPlayer s) else [])"
    using vc_destroy_Some(3)[OF h] by (simp add: w' live_def)
  show "subscriptions w' = (if live then (subscriptions w)(guildId s := None) else subscriptions w)"
    using vc_destroy_Some(4)[OF h] by (simp add: w' live_def)
  show "allocated w' = allocated w"
    using vc_destroy_Some(5)[OF h] by (simp add: w' live_def)
qed

text \<open>
  C6 (as amended). Every entry of the player into \<open>Idle\<close> with an empty queue, from a
  state that held a resource, starts one more wait of thirty seconds, whatever waits
  are pending already; the listener has no lock for it. Whenever such a wait runs out,
  in whatever state \<open>s'\<close> the subscription then is, exactly one notice goes to the
  text channel that is the last one then, and the connection is destroyed unless it
  was destroyed already, which ends the subscription: it is marked destroyed and the
  guild's entry leaves the registry (a player that is not idle then is stopped, which
  starts a wait of its own). The waits that remain pending stay so.
\<close>

theorem idle_guard_timeout:
  assumes "heap w this = Some s" "queue s = []" "ap_status newState = Idle"
    "ap_status oldState \<noteq> Idle" "ap_resource oldState = Some r"
    "heap w' this = Some s'" "EntersPlaying this \<in> set (tasks w')"
  shows "let w1 = ap_stateChange this oldState newState w;
             w2 = ap_entersPlaying_resume this False w';
             live = (vc_status (vc_state (voiceConnection s')) \<noteq> Destroyed)
         in tasks w1 = tasks w @ [EntersPlaying this] \<and>
            heap w1 = heap w \<and>
            trace w1 = trace w @ (if errored (metadata r) then [] else [OnFinish (metadata r)]) \<and>
            trace w2 = trace w' @ [Send (lastTextChannel s') LeftForInactivity] @
                         (if live then [VcDestroy this] @ stop_events (audioPlayer s') else []) \<and>
            tasks w2 = remove1 (EntersPlaying this) (tasks w') @
                         (if live then stop_tasks this (audioPlayer s') else []) \<and>
            heap w2 = (if live then (heap w')(this \<mapsto> stopped s') else heap w') \<and>
            vc_status (vc_state (voiceConnection (stopped s'))) = Destroyed \<and>
            destroyed (stopped s') \<and>
            subscriptions w2 =
              (if live then (subscriptions w')(guildId s' := None) else subscriptions w')"
proof -
  note a = ap_stateChange_idle_empty[OF assms(1,2,3,4,5)]
  note b = ap_entersPlaying_timeout[OF assms(7,6)]
  show ?thesis
    unfolding Let_def b
    by (simp add: a stopped_def destroyed_state_def)
qed

theorem idle_guard_timeout_witness:
  "heap world_idle 0 = Some sub_idle \<and> queue sub_idle = [] \<and>
   EntersPlaying 0 \<in> set (tasks (ap_stateChange 0
      \<lparr>ap_status = Playing, ap_resource = Some \<lparr>metadata = trackA\<rparr>\<rparr>
      \<lparr>ap_status = Idle, ap_resource = None\<rparr> world_idle)) \<and>
   trace (ap_entersPlaying_resume 0 False
           (ap_stateChange 0 \<lparr>ap_status = Playing, ap_resource = Some \<lparr>metadata = trackA\<rparr>\<rparr>
              \<lparr>ap_status = Idle, ap_resource = None\<rparr> world_idle)) =
     [OnFinish trackA, Send ''t'' LeftForInactivity, VcDestroy 0] \<and>
   tasks (ap_entersPlaying_resume 0 False
           (ap_stateChange 0 \<lparr>ap_status = Playing, ap_resource = Some \<lparr>metadata = trackA\<rparr>\<rparr>
              \<lparr>ap_status = Idle, ap_resource = None\<rparr> world_idle)) = [] \<and>
   subscriptions (ap_entersPlaying_resume 0 False
           (ap_stateChange 0 \<lparr>ap_status = Playing, ap_resource = Some \<lparr>metadata = trackA\<rparr>\<rparr>
              \<lparr>ap_status = Idle, ap_resource = None\<rparr> world_idle)) ''g'' = None"
proof -
  let ?old = "\<lparr>ap_status = Playing, ap_resource = Some \<lparr>metadata = trackA\<rparr>\<rparr>"
  let ?new = "\<lparr>ap_status = Idle, ap_resource = None\<rparr>"
  let ?w1 = "ap_stateChange 0 ?old ?new world_idle"
  have h: "heap world_idle 0 = Some sub_idle" "queue sub_idle = []"
    "ap_status ?new = Idle" "ap_status ?old \<noteq> Idle"
    "ap_resource ?old = Some \<lparr>metadata = trackA\<rparr>"
    by (simp_all add: world_idle_def sub_idle_def sub0_def new_MusicSubscription_def world0_def)
  note a = ap_stateChange_idle_empty[OF h]
  have e: "vc_status (vc_state (voiceConnection sub_idle)) \<noteq> Destroyed"
    "guildId sub_idle = ''g''" "trace world_idle = []" "lastTextChannel sub_idle = ''t''"
    "subscriptions world_idle = [''g'' \<mapsto> 0]" "\<not> errored trackA" "tasks world_idle = []"
    "stop_events (audioPlayer sub_idle) = []" "stop_tasks 0 (audioPlayer sub_idle) = []"
    by (simp_all add: sub_idle_def sub0_def new_MusicSubscription_def stop_events_def
        stop_tasks_def joinVoiceChannel_def trackA_def world_idle_def world0_def)
  have g: "heap ?w1 0 = Some sub_idle" "EntersPlaying 0 \<in> set (tasks ?w1)"
    by (simp_all add: a h)
  from idle_guard_timeout[OF h g] show ?thesis
    using h g by (simp add: e a Let_def)
qed

text \<open>
  C6 as it was stated fails when \<open>Idle\<close> is entered a second time before the first
  wait runs out. Track \<open>A\<close> ends with an empty queue (first wait); track \<open>B\<close> is
  enqueued, handed to the player and ends while buffering, never \<open>Playing\<close> (second
  wait). The first wait runs out: notice, and the end of the connection and of the
  subscription. The second wait runs out: a second notice.
\<close>

theorem idle_guard_twice_counterexample:
  "tasks (ap_enters 0 idle_state
            (processQueue_resume 0 trackB (Inr \<lparr>metadata = trackB\<rparr>)
              (enqueue 0 trackB (ap_enters 0 idle_state world_last)))) =
     [EntersPlaying 0, EntersPlaying 0] \<and>
   trace (ap_entersPlaying_resume 0 False
           (ap_entersPlaying_resume 0 False
             (ap_enters 0 idle_state
               (processQueue_resume 0 trackB (Inr \<lparr>metadata = trackB\<rparr>)
                 (enqueue 0 trackB (ap_enters 0 idle_state world_last)))))) =
     [OnFinish trackA, OnFinish trackB, Send ''t'' LeftForInactivity, VcDestroy 0,
      Send ''t'' LeftForInactivity]"
  by (simp add: world_last_def sub_last_def world0_def sub0_def new_MusicSubscription_def
      joinVoiceChannel_def idle_state_def trackA_def trackB_def
      ap_enters_def ap_stateChange_def processQueue_def processQueue_resume_def enqueue_def
      ap_play_def ap_entersPlaying_resume_def ap_stop_def
      stop.simps vc_destroy.simps vc_stateChange.simps vc_live_def connection_of_def
      modify_def put_def emit_def suspend_def settle_def Let_def)

section \<open>The guard on Connecting and Signalling\<close>

text \<open>
  C3. The connection of the example enters \<open>Connecting\<close>: the listener takes
  \<open>readyLock\<close> and starts one wait for \<open>Ready\<close>; entering \<open>Signalling\<close>
  meanwhile starts no second wait. When the fifteen seconds run out, the listener ends
  with an unhandled \<open>ReferenceError\<close>: the connection is still \<open>Connecting\<close>,
  \<open>destroy()\<close> was not called, the lock is free again.
\<close>

theorem ready_guard_timeout_keeps_connection:
  "tasks (vc_enters 0 connecting_state world0) = [EntersReady 0] \<and>
   map_option readyLock (heap (vc_enters 0 connecting_state world0) 0) = Some True \<and>
   tasks (vc_enters 0 signalling_state (vc_enters 0 connecting_state world0)) = [EntersReady 0] \<and>
   connection_of 0 (vc_entersReady_resume 0 False (vc_enters 0 connecting_state world0)) =
     Some \<lparr>vc_state = connecting_state, rejoinAttempts = 0\<rparr> \<and>
   trace (vc_entersReady_resume 0 False (vc_enters 0 connecting_state world0)) =
     [Unhandled ReferenceError] \<and>
   map_option readyLock
     (heap (vc_entersReady_resume 0 False (vc_enters 0 connecting_state world0)) 0) = Some False \<and>
   tasks (vc_entersReady_resume 0 False (vc_enters 0 connecting_state world0)) = []"
  by (simp add: vc_enters_def vc_entersReady_resume_def vc_stateChange.simps vc_live_def
      connection_of_def modify_def Let_def world0_def sub0_def new_MusicSubscription_def
      joinVoiceChannel_def connecting_state_def signalling_state_def)

section \<open>Rejoining after a disconnect\<close>

text \<open>One round of the reconnection policy: the connection enters \<open>Disconnected\<close>, and
  the delay that its listener started (for the number of attempts made so far) ends.\<close>

definition rejoin_cycle :: "ref \<Rightarrow> connection_state \<Rightarrow> world \<Rightarrow> world" where
  "rejoin_cycle this newState w =
     (case connection_of this w of
        None \<Rightarrow> w
      | Some c \<Rightarrow> vc_wait_resume this ((rejoinAttempts c + 1) * 5000) (vc_enters this newState w))"

lemma vc_enters_disconnected:
  assumes "heap w this = Some s" "vc_status (vc_state (voiceConnection s)) \<noteq> Destroyed"
    "vc_status d = Disconnected" "\<not> (reason d = Some WebSocketClose \<and> closeCode d = Some 4014)"
  defines "a \<equiv> rejoinAttempts (voiceConnection s)"
  defines "s' \<equiv> s\<lparr>voiceConnection := \<lparr>vc_state = d, rejoinAttempts = a\<rparr>\<rparr>"
  shows "a < 5 \<Longrightarrow> vc_enters this d w = suspend (Waiting this ((a + 1) * 5000)) (put this s' w)"
    and "\<not> a < 5 \<Longrightarrow> vc_enters this d w = vc_destroy this (put this s' w)"
proof -
  have n: "(reason d = Some WebSocketClose \<and> closeCode d = Some 4014) = False"
    using assms(4) by simp
  show "a < 5 \<Longrightarrow> vc_enters this d w = suspend (Waiting this ((a + 1) * 5000)) (put this s' w)"
    using assms(1-3)
    by (simp add: vc_enters_def vc_live_Some Let_def modify_Some vc_stateChange.simps a_def
        s'_def n)
  show "\<not> a < 5 \<Longrightarrow> vc_enters this d w = vc_destroy this (put this s' w)"
    using assms(1-3)
    by (simp add: vc_enters_def vc_live_Some Let_def modify_Some vc_stateChange.simps a_def
        s'_def n)
qed

lemma rejoin_cycle_step:
  assumes "heap w this = Some s" "vc_status (vc_state (voiceConnection s)) \<noteq> Destroyed"
    "vc_status d = Disconnected" "\<not> (reason d = Some WebSocketClose \<and> closeCode d = Some 4014)"
    "rejoinAttempts (voiceConnection s) < 5" "\<forall>ms. Waiting this ms \<notin> set (tasks w)"
  shows "heap (rejoin_cycle this d w) =
           (heap w)(this \<mapsto> s\<lparr>voiceConnection :=
              \<lparr>vc_state = d, rejoinAttempts = rejoinAttempts (voiceConnection s) + 1\<rparr>\<rparr>)"
    and "trace (rejoin_cycle this d w) = trace w @ [VcRejoin this]"
    and "tasks (rejoin_cycle this d w) = tasks w"
    and "subscriptions (rejoin_cycle this d w) = subscriptions w"
  using assms
  by (simp_all add: rejoin_cycle_def connection_of_def vc_enters_disconnected(1)
      vc_wait_resume_def vc_rejoin_def modify_def remove1_append)

lemma rejoin_cycles:
  assumes "heap w this = Some s" "vc_status (vc_state (voiceConnection s)) \<noteq> Destroyed"
    "rejoinAttempts (voiceConnection s) = 0"
    "vc_status d = Disconnected" "\<not> (reason d = Some WebSocketClose \<and> closeCode d = Some 4014)"
    "\<forall>ms. Waiting this ms \<notin> set (tasks w)"
  shows "k \<le> 5 \<Longrightarrow>
    heap ((rejoin_cycle this d ^^ k) w) =
      (heap w)(this \<mapsto> s\<lparr>voiceConnection :=
         \<lparr>vc_state = (if k = 0 then vc_state (voiceConnection s) else d), rejoinAttempts = k\<rparr>\<rparr>) \<and>
    trace ((rejoin_cycle this d ^^ k) w) = trace w @ replicate k (VcRejoin this) \<and>
    tasks ((rejoin_cycle this d ^^ k) w) = tasks w \<and>
    subscriptions ((rejoin_cycle this d ^^ k) w) = subscriptions w"
proof (induction k)
  case 0
  have "s\<lparr>voiceConnection := \<lparr>vc_state = vc_state (voiceConnection s), rejoinAttempts = 0\<rparr>\<rparr> = s"
    using assms(3) by (cases s) simp
  then show ?case using assms(1) by (simp add: map_upd_triv)
next
  case (Suc k)
  let ?w = "(rejoin_cycle this d ^^ k) w"
  let ?s = "s\<lparr>voiceConnection :=
         \<lparr>vc_state = (if k = 0 then vc_state (voiceConnection s) else d), rejoinAttempts = k\<rparr>\<rparr>"
  have k5: "k \<le> 5" using Suc.prems by simp
  have IH: "heap ?w = (heap w)(this \<mapsto> ?s)" "trace ?w = trace w @ replicate k (VcRejoin this)"
    "tasks ?w = tasks w" "subscriptions ?w = subscriptions w"
    using Suc.IH[OF k5] by blast+
  have h: "heap ?w this = Some ?s" by (simp add: IH(1))
  have l: "vc_status (vc_state (voiceConnection ?s)) \<noteq> Destroyed"
    using assms(2,4) by simp
  have a: "rejoinAttempts (voiceConnection ?s) < 5" using Suc.prems by simp
  have t: "\<forall>ms. Waiting this ms \<notin> set (tasks ?w)" using assms(6) by (simp add: IH(3))
  note st = rejoin_cycle_step[OF h l assms(4,5) a t]
  show ?case
    by (simp add: st IH replicate_append_same)
qed

lemma vc_enters_ready:
  assumes "heap w this = Some s" "vc_status (vc_state (voiceConnection s)) \<noteq> Destroyed"
    "vc_status rdy = Ready"
  shows "vc_enters this rdy w =
     put this (s\<lparr>voiceConnection := \<lparr>vc_state = rdy, rejoinAttempts = 0\<rparr>\<rparr>) w"
  using assms
  by (simp add: vc_enters_def vc_live_Some Let_def modify_Some vc_stateChange.simps)

text \<open>
  C5. A live connection with no rejoin attempt so far keeps entering \<open>Disconnected\<close>
  for a reason other than close code 4014, never \<open>Ready\<close>. After \<open>k \<le> 5\<close> rounds
  the counter is \<open>k\<close> and the only events were \<open>k\<close> rejoin requests. While
  \<open>k < 5\<close> the next entry into \<open>Disconnected\<close> destroys nothing: it starts a delay
  of \<open>(k + 1) * 5000\<close> milliseconds, after which a rejoin is requested and the counter
  is \<open>k + 1\<close>. After the fifth round the next entry into \<open>Disconnected\<close> - the
  failure of the fifth rejoin - calls \<open>destroy()\<close>, and the connection is destroyed.
  Entering \<open>Ready\<close> at any of these points sets the counter to \<open>0\<close>.
\<close>

theorem rejoin_bound:
  assumes "heap w this = Some s" "vc_status (vc_state (voiceConnection s)) \<noteq> Destroyed"
    "rejoinAttempts (voiceConnection s) = 0"
    "vc_status d = Disconnected" "\<not> (reason d = Some WebSocketClose \<and> closeCode d = Some 4014)"
    "\<forall>ms. Waiting this ms \<notin> set (tasks w)" "k \<le> 5" "vc_status rdy = Ready"
  shows "let wk = (rejoin_cycle this d ^^ k) w;
             entered = vc_enters this d wk
         in connection_of this wk =
              Some \<lparr>vc_state = (if k = 0 then vc_state (voiceConnection s) else d),
                    rejoinAttempts = k\<rparr> \<and>
            trace wk = trace w @ replicate k (VcRejoin this) \<and>
            (if k < 5
             then tasks entered = tasks wk @ [Waiting this ((k + 1) * 5000)] \<and>
                  trace entered = trace wk \<and> vc_live this entered \<and>
                  connection_of this (rejoin_cycle this d wk) =
                    Some \<lparr>vc_state = d, rejoinAttempts = k + 1\<rparr> \<and>
                  trace (rejoin_cycle this d wk) = trace wk @ [VcRejoin this]
             else \<not> vc_live this entered \<and>
                  trace entered = trace wk @ [VcDestroy this] @ stop_events (audioPlayer s)) \<and>
            connection_of this (vc_enters this rdy wk) =
              Some \<lparr>vc_state = rdy, rejoinAttempts = 0\<rparr>"
proof -
  let ?wk = "(rejoin_cycle this d ^^ k) w"
  let ?sk = "s\<lparr>voiceConnection :=
         \<lparr>vc_state = (if k = 0 then vc_state (voiceConnection s) else d), rejoinAttempts = k\<rparr>\<rparr>"
  note c = rejoin_cycles[OF assms(1-6) assms(7)]
  have hk: "heap ?wk this = Some ?sk" using c by simp
  have lk: "vc_status (vc_state (voiceConnection ?sk)) \<noteq> Destroyed"
    using assms(2,4) by simp
  have tk: "\<forall>ms. Waiting this ms \<notin> set (tasks ?wk)" using c assms(6) by simp
  have 1: "connection_of this ?wk =
      Some \<lparr>vc_state = (if k = 0 then vc_state (voiceConnection s) else d), rejoinAttempts = k\<rparr>"
    by (simp add: connection_of_def hk)
  have 2: "trace ?wk = trace w @ replicate k (VcRejoin this)" using c by simp
  have 4: "connection_of this (vc_enters this rdy ?wk) = Some \<lparr>vc_state = rdy, rejoinAttempts = 0\<rparr>"
    by (simp add: vc_enters_ready[OF hk lk assms(8)] connection_of_def)
  have 3: "tasks (vc_enters this d ?wk) = tasks ?wk @ [Waiting this ((k + 1) * 5000)] \<and>
           trace (vc_enters this d ?wk) = trace ?wk \<and> vc_live this (vc_enters this d ?wk) \<and>
           connection_of this (rejoin_cycle this d ?wk) = Some \<lparr>vc_state = d, rejoinAttempts = k + 1\<rparr> \<and>
           trace (rejoin_cycle this d ?wk) = trace ?wk @ [VcRejoin this]"
    if "k < 5"
  proof -
    have a: "rejoinAttempts (voiceConnection ?sk) < 5" using that by simp
    note e = vc_enters_disconnected(1)[OF hk lk assms(4,5) a]
    note st = rejoin_cycle_step[OF hk lk assms(4,5) a tk]
    show ?thesis
      using assms(4) by (simp add: e st vc_live_def connection_of_def)
  qed
  have 5: "\<not> vc_live this (vc_enters this d ?wk) \<and>
           trace (vc_enters this d ?wk) = trace ?wk @ [VcDestroy this] @ stop_events (audioPlayer s)"
    if "\<not> k < 5"
  proof -
    have a: "\<not> rejoinAttempts (voiceConnection ?sk) < 5" using that by simp
    let ?s' = "?sk\<lparr>voiceConnection := \<lparr>vc_state = d, rejoinAttempts = rejoinAttempts (voiceConnection ?sk)\<rparr>\<rparr>"
    note e = vc_enters_disconnected(2)[OF hk lk assms(4,5) a]
    have h': "heap (put this ?s' ?wk) this = Some ?s'" by simp
    have l': "vc_status (vc_state (voiceConnection ?s')) \<noteq> Destroyed" using assms(4) by simp
    note d = vc_destroy_Some[OF h' l']
    show ?thesis
      unfolding e vc_live_def connection_of_def d
      by (simp add: stopped_def destroyed_state_def)
  qed
  show ?thesis
    unfolding Let_def using 1 2 3 4 5 by simp
qed

theorem rejoin_bound_witness:
  "heap world0 0 = Some sub0 \<and> vc_status (vc_state (voiceConnection sub0)) \<noteq> Destroyed \<and>
   rejoinAttempts (voiceConnection sub0) = 0 \<and> vc_status disconnected_state = Disconnected \<and>
   trace ((rejoin_cycle 0 disconnected_state ^^ 5) world0) = replicate 5 (VcRejoin 0) \<and>
   \<not> vc_live 0 (vc_enters 0 disconnected_state ((rejoin_cycle 0 disconnected_state ^^ 5) world0)) \<and>
   trace (vc_enters 0 disconnected_state ((rejoin_cycle 0 disconnected_state ^^ 5) world0)) =
     replicate 5 (VcRejoin 0) @ [VcDestroy 0]"
proof -
  have h: "heap world0 0 = Some sub0" "vc_status (vc_state (voiceConnection sub0)) \<noteq> Destroyed"
    "rejoinAttempts (voiceConnection sub0) = 0" "vc_status disconnected_state = Disconnected"
    "\<not> (reason disconnected_state = Some WebSocketClose \<and> closeCode disconnected_state = Some 4014)"
    "\<forall>ms. Waiting 0 ms \<notin> set (tasks world0)" "(5::nat) \<le> 5"
    "vc_status \<lparr>vc_status = Ready, reason = None, closeCode = None\<rparr> = Ready"
    by (simp_all add: world0_def sub0_def new_MusicSubscription_def joinVoiceChannel_def
        disconnected_state_def)
  have e: "stop_events (audioPlayer sub0) = []" "trace world0 = []"
    by (simp_all add: stop_events_def sub0_def new_MusicSubscription_def world0_def)
  from rejoin_bound[OF h] show ?thesis
    using h(1-4) by (simp add: Let_def e)
qed

section \<open>One subscription per guild\<close>

lemma getOrCreateSubscription_get:
  "subscriptions_get (snd (getOrCreateSubscription vc tc w)) (guild_id vc) =
     Some (fst (getOrCreateSubscription vc tc w),
           (case subscriptions_get w (guild_id vc) of
              None \<Rightarrow> new_MusicSubscription (joinVoiceChannel vc) tc (guild_id vc)
            | Some (r, s) \<Rightarrow> s\<lparr>lastTextChannel := tc\<rparr>))"
  by (auto simp: getOrCreateSubscription_def subscriptions_get_def Let_def put_def
      split: option.splits)

text \<open>
  C4. The registry is a map, so a guild has at most one entry. Two calls of
  \<open>getOrCreateSubscription\<close> for the same guild, one after the other, return the
  same reference; the second call changes nothing but \<open>lastTextChannel\<close> of that
  subscription. The first call constructs a subscription and enters it into the
  registry only when the guild had no entry; otherwise it returns the one found, with
  \<open>lastTextChannel\<close> updated.
\<close>

theorem getOrCreateSubscription_same_instance:
  assumes "guild_id vc' = guild_id vc"
  shows "let (a, w1) = getOrCreateSubscription vc tc w;
             (b, w2) = getOrCreateSubscription vc' tc' w1
         in b = a \<and>
            subscriptions w1 (guild_id vc) = Some a \<and>
            w2 = modify a (\<lambda>s. s\<lparr>lastTextChannel := tc'\<rparr>) w1 \<and>
            (case subscriptions_get w (guild_id vc) of
               Some (r, s) \<Rightarrow>
                 a = r \<and> w1 = put r (s\<lparr>lastTextChannel := tc\<rparr>) w
             | None \<Rightarrow>
                 a = allocated w \<and> allocated w1 = Suc (allocated w) \<and>
                 heap w1 = (heap w)(a \<mapsto> new_MusicSubscription (joinVoiceChannel vc) tc (guild_id vc)) \<and>
                 subscriptions w1 = (subscriptions w)(guild_id vc \<mapsto> a))"
proof -
  obtain a w1 where 1: "getOrCreateSubscription vc tc w = (a, w1)" by (cases "getOrCreateSubscription vc tc w")
  obtain b w2 where 2: "getOrCreateSubscription vc' tc' w1 = (b, w2)" by (cases "getOrCreateSubscription vc' tc' w1")
  from getOrCreateSubscription_get[of vc tc w] obtain s1
    where g: "subscriptions_get w1 (guild_id vc) = Some (a, s1)"
    by (simp add: 1)
  then have h: "subscriptions w1 (guild_id vc) = Some a" "heap w1 a = Some s1"
    by (auto simp: subscriptions_get_def split: option.splits)
  have "b = a \<and> w2 = put a (s1\<lparr>lastTextChannel := tc'\<rparr>) w1"
    using 2 g assms by (auto simp: getOrCreateSubscription_def Let_def)
  then have 3: "b = a" "w2 = modify a (\<lambda>s. s\<lparr>lastTextChannel := tc'\<rparr>) w1"
    using h by (simp_all add: modify_Some)
  have 4: "(case subscriptions_get w (guild_id vc) of
               Some (r, s) \<Rightarrow>
                 a = r \<and> w1 = put r (s\<lparr>lastTextChannel := tc\<rparr>) w
             | None \<Rightarrow>
                 a = allocated w \<and> allocated w1 = Suc (allocated w) \<and>
                 heap w1 = (heap w)(a \<mapsto> new_MusicSubscription (joinVoiceChannel vc) tc (guild_id vc)) \<and>
                 subscriptions w1 = (subscriptions w)(guild_id vc \<mapsto> a))"
    using 1 by (auto simp: getOrCreateSubscription_def Let_def split: option.splits)
  show ?thesis
    using 3 4 h(1) by (simp add: 1 2)
qed

theorem getOrCreateSubscription_same_instance_witness:
  "guild_id voice_channel1 = guild_id voice_channel0 \<and>
   fst (getOrCreateSubscription voice_channel0 ''t'' empty_world) = 0 \<and>
   fst (getOrCreateSubscription voice_channel1 ''u''
         (snd (getOrCreateSubscription voice_channel0 ''t'' empty_world))) = 0 \<and>
   snd (getOrCreateSubscription voice_channel1 ''u''
         (snd (getOrCreateSubscription voice_channel0 ''t'' empty_world))) =
     modify 0 (\<lambda>s. s\<lparr>lastTextChannel := ''u''\<rparr>)
       (snd (getOrCreateSubscription voice_channel0 ''t'' empty_world))"
proof -
  have h: "guild_id voice_channel1 = guild_id voice_channel0"
    by (simp add: voice_channel0_def voice_channel1_def)
  have e: "subscriptions_get empty_world (guild_id voice_channel0) = None" "allocated empty_world = 0"
    by (simp_all add: subscriptions_get_def empty_world_def)
  from getOrCreateSubscription_same_instance[OF h, of "''t''" empty_world "''u''"]
  show ?thesis
    using h by (simp add: split_beta Let_def e)
qed

section \<open>Validation of /swap\<close>

lemma swap_beyond:
  assumes "length (queue s) \<le> i" "j < length (queue s)"
  shows "queue (swap i j s) =
           (queue s @ replicate (i - length (queue s)) None @ [queue s ! j])[j := None]"
  using assms by (simp add: swap_def Let_def js_get_def js_set_def)

text \<open>
  C8. Three tracks are queued, at the indices 0 to 2. \<open>/swap 3 0\<close> passes every check
  of the command (3 is not greater than the length 3), so line 393 calls
  \<open>swap(3, 0)\<close>, and \<open>swap\<close>, which checks nothing, makes the queue one slot
  longer and leaves \<open>undefined\<close> at its front. \<open>/swap 4 0\<close> ends with a
  \<open>ReferenceError\<close> and without a reply. \<open>/swap 1.5 0\<close>, which names no slot of
  the queue either, passes every check as well.
\<close>

theorem swap_beyond_queue_not_rejected:
  "swap_validate number0 (swap_interaction ''3'' ''0'') world0 = Inr (Num 3, Num 0) \<and>
   queue sub0 = [Some trackA, Some trackB, Some trackC] \<and>
   queue (swap 3 0 sub0) = [None, Some trackB, Some trackC, Some trackA] \<and>
   swap_validate number0 (swap_interaction ''4'' ''0'') world0 = Inl (Thrown ReferenceError) \<and>
   swap_validate number0 (swap_interaction ''1.5'' ''0'') world0 = Inr (Num (3 / 2), Num 0)"
  by (simp add: swap_validate_def subscriptions_get_def world0_def swap_interaction_def sub0_def
      number0_def new_MusicSubscription_def Let_def swap_def js_get_def js_set_def
      eval_nat_numeral)

section \<open>The command that is registered as stop\<close>

lemma commands_skip: "commands ''skip'' = Some \<lparr>builder_name = ''stop'', execute = Skip_433\<rparr>"
  by (simp add: commands_def commands_literal_def object_of_def)

lemma commands_stop: "commands ''stop'' = None"
  by (simp add: commands_def commands_literal_def object_of_def)

lemma skip_execute_frame:
  "subscriptions (fst (skip_execute i w)) = subscriptions w \<and>
   connection_of r (fst (skip_execute i w)) = connection_of r w"
  by (auto simp: skip_execute_def Let_def subscriptions_get_def ap_stop_def ap_enters_def
      ap_stateChange_def processQueue_def connection_of_def
      split: option.splits sum.splits)

text \<open>
  C10. The object \<open>commands\<close> has the key \<open>skip\<close> twice and no key \<open>stop\<close>:
  under \<open>skip\<close> it holds the second entry, whose builder is named \<open>stop\<close> and
  whose body skips. An interaction named \<open>stop\<close> runs nothing; one named \<open>skip\<close>
  runs the second body. No body of the object calls \<open>stop()\<close> of a subscription, and
  the body registered under \<open>skip\<close> leaves the registry and every connection as they
  were.
\<close>

theorem stop_command_missing:
  "commands ''skip'' = Some \<lparr>builder_name = ''stop'', execute = Skip_433\<rparr> \<and>
   commands ''stop'' = None \<and>
   interactionCreate (i\<lparr>commandName := ''stop''\<rparr>) = None \<and>
   interactionCreate (i\<lparr>isCommand := True, commandName := ''skip''\<rparr>) = Some Skip_433 \<and>
   Call_stop \<notin> set (calls b) \<and>
   subscriptions (fst (skip_execute i w)) = subscriptions w \<and>
   connection_of r (fst (skip_execute i w)) = connection_of r w"
proof -
  have "Call_stop \<notin> set (calls b)"
    by (cases b) (simp_all add: calls_of_play_def)
  then show ?thesis
    using skip_execute_frame[of i w r]
    by (simp add: interactionCreate_def commands_skip commands_stop)
qed

end
